theory Spec2Isabelle
  imports Complex_Main
begin

text \<open>
  A shallow embedding of \<^verbatim>\<open>python/models.py\<close>: the class \<^verbatim>\<open>TwoClustersMIP\<close>, which
  builds a mixed-integer program for an additive piecewise-linear utility model from
  pairs (\<open>X[j]\<close> preferred to \<open>Y[j]\<close>), and the prediction methods of \<^verbatim>\<open>BaseModel\<close>.
  The program is built with gurobipy; what is modelled here is the construction of its
  variables, constraints and objective, not the solver.
\<close>

section \<open>Python and numpy primitives used by \<^verbatim>\<open>models.py\<close>\<close>

text \<open>
  Exceptions are values. \<open>IndexError\<close>, \<open>ValueError\<close> and \<open>KeyError\<close> are Python's.
  \<open>NonFinite\<close> marks a float division by zero: numpy does not raise there, it warns and
  yields \<open>inf\<close> or \<open>nan\<close>. The numbers of this development are exact rationals, which
  have no such value, so evaluation stops at that point with \<open>NonFinite\<close>. (In
  \<^verbatim>\<open>fit\<close> every such path ends in a Python exception anyway: \<^verbatim>\<open>int()\<close> of
  \<open>nan\<close> or \<open>inf\<close> in \<^verbatim>\<open>u_i\<close>, or an index past the breakpoint list when
  \<^verbatim>\<open>self.L\<close> is 0.) Rounding of float64 arithmetic is not modelled.
\<close>

datatype error = IndexError | ValueError | KeyError | NonFinite

definition bind_err :: "error + 'a \<Rightarrow> ('a \<Rightarrow> error + 'b) \<Rightarrow> error + 'b" where
  "bind_err r f = (case r of Inl e \<Rightarrow> Inl e | Inr x \<Rightarrow> f x)"

text \<open>A \<^verbatim>\<open>for x in xs:\<close> loop over a state; it stops at the first exception.\<close>

fun for_each :: "'a list \<Rightarrow> ('a \<Rightarrow> 's \<Rightarrow> error + 's) \<Rightarrow> 's \<Rightarrow> error + 's" where
  "for_each [] body s = Inr s"
| "for_each (x # xs) body s = bind_err (body x s) (for_each xs body)"

text \<open>A list comprehension \<^verbatim>\<open>[f(x) for x in xs]\<close> whose element may raise.\<close>

fun comprehension :: "('a \<Rightarrow> error + 'b) \<Rightarrow> 'a list \<Rightarrow> error + 'b list" where
  "comprehension f [] = Inr []"
| "comprehension f (x # xs) =
     bind_err (f x) (\<lambda>y. bind_err (comprehension f xs) (\<lambda>ys. Inr (y # ys)))"

text \<open>
  \<^verbatim>\<open>xs[i]\<close> on a Python list or a one-dimensional array: a negative index counts
  from the end, an index out of range raises IndexError.
\<close>

definition getitem :: "'a list \<Rightarrow> int \<Rightarrow> error + 'a" where
  "getitem xs i =
     (let len = int (length xs); pos = (if i < 0 then i + len else i)
      in if 0 \<le> pos \<and> pos < len then Inr (xs ! nat pos) else Inl IndexError)"

text \<open>\<^verbatim>\<open>d[key]\<close> on a dict.\<close>

definition lookup :: "('k \<rightharpoonup> 'v) \<Rightarrow> 'k \<Rightarrow> error + 'v" where
  "lookup d key = (case d key of None \<Rightarrow> Inl KeyError | Some v \<Rightarrow> Inr v)"

text \<open>
  A two-dimensional \<^verbatim>\<open>np.ndarray\<close>: its shape and its rows. The shape is kept apart
  from the rows because an array with no row still has a column count.
\<close>

record 'a ndarray =
  shape0 :: nat
  shape1 :: nat
  data :: "'a list list"

definition well_shaped :: "'a ndarray \<Rightarrow> bool" where
  "well_shaped A \<longleftrightarrow>
     length (data A) = shape0 A \<and> list_all (\<lambda>r. length r = shape1 A) (data A)"

text \<open>\<^verbatim>\<open>A[j, i]\<close> for indices that come from \<^verbatim>\<open>range\<close> (never negative).\<close>

definition getitem2 :: "'a ndarray \<Rightarrow> nat \<Rightarrow> nat \<Rightarrow> error + 'a" where
  "getitem2 A j i =
     (if j < shape0 A \<and> i < shape1 A then Inr (data A ! j ! i) else Inl IndexError)"

text \<open>\<^verbatim>\<open>np.concatenate((X, Y), axis=0)\<close>: the column counts must agree.\<close>

definition concatenate0 :: "'a ndarray \<Rightarrow> 'a ndarray \<Rightarrow> error + 'a ndarray" where
  "concatenate0 X Y =
     (if shape1 X \<noteq> shape1 Y then Inl ValueError
      else Inr \<lparr>shape0 = shape0 X + shape0 Y, shape1 = shape1 X, data = data X @ data Y\<rparr>)"

text \<open>
  \<^verbatim>\<open>A.min(axis=0)\<close> and \<^verbatim>\<open>A.max(axis=0)\<close>: one value per column; numpy raises
  ValueError on an array with no row.
\<close>

definition column :: "'a ndarray \<Rightarrow> nat \<Rightarrow> 'a list" where
  "column A i = map (\<lambda>r. r ! i) (data A)"

definition amin0 :: "rat ndarray \<Rightarrow> error + rat list" where
  "amin0 A =
     (if shape0 A = 0 then Inl ValueError
      else Inr (map (\<lambda>i. Min (set (column A i))) [0..<shape1 A]))"

definition amax0 :: "rat ndarray \<Rightarrow> error + rat list" where
  "amax0 A =
     (if shape0 A = 0 then Inl ValueError
      else Inr (map (\<lambda>i. Max (set (column A i))) [0..<shape1 A]))"

text \<open>Float division \<^verbatim>\<open>a / b\<close>.\<close>

definition fdiv :: "rat \<Rightarrow> rat \<Rightarrow> error + rat" where
  "fdiv a b = (if b = 0 then Inl NonFinite else Inr (a / b))"

text \<open>\<^verbatim>\<open>np.zeros((r, c))\<close>.\<close>

definition np_zeros :: "nat \<Rightarrow> nat \<Rightarrow> rat ndarray" where
  "np_zeros r c = \<lparr>shape0 = r, shape1 = c, data = replicate r (replicate c 0)\<rparr>"

text \<open>
  \<^verbatim>\<open>A - B\<close> on two-dimensional arrays, with numpy's broadcasting: along each axis
  the two lengths are equal or one of them is 1, otherwise ValueError.
\<close>

definition broadcast_dim :: "nat \<Rightarrow> nat \<Rightarrow> error + nat" where
  "broadcast_dim a b =
     (if a = b then Inr a else if a = 1 then Inr b else if b = 1 then Inr a
      else Inl ValueError)"

definition bcast_at :: "'a ndarray \<Rightarrow> nat \<Rightarrow> nat \<Rightarrow> 'a" where
  "bcast_at A r c =
     data A ! (if shape0 A = 1 then 0 else r) ! (if shape1 A = 1 then 0 else c)"

definition np_subtract :: "rat ndarray \<Rightarrow> rat ndarray \<Rightarrow> error + rat ndarray" where
  "np_subtract A B =
     bind_err (broadcast_dim (shape0 A) (shape0 B)) (\<lambda>nr.
     bind_err (broadcast_dim (shape1 A) (shape1 B)) (\<lambda>nc.
       Inr \<lparr>shape0 = nr, shape1 = nc,
            data = map (\<lambda>r. map (\<lambda>c. bcast_at A r c - bcast_at B r c) [0..<nc]) [0..<nr]\<rparr>))"

text \<open>\<^verbatim>\<open>(A > 0).astype(int)\<close>.\<close>

definition positive_as_int :: "rat ndarray \<Rightarrow> int ndarray" where
  "positive_as_int A =
     \<lparr>shape0 = shape0 A, shape1 = shape1 A,
      data = map (map (\<lambda>v. if v > 0 then 1 else 0)) (data A)\<rparr>"

text \<open>
  \<^verbatim>\<open>np.argmax(A, axis=1)\<close>: per row, the index of the first occurrence of the
  row's maximum; ValueError when the rows have no entry. \<open>argmax_scan best bv i xs\<close>
  scans \<open>xs\<close>, whose first element has index \<open>i\<close>, holding the best index and value so
  far; only a strictly larger value replaces them.
\<close>

fun argmax_scan :: "nat \<Rightarrow> rat \<Rightarrow> nat \<Rightarrow> rat list \<Rightarrow> nat" where
  "argmax_scan best bv i [] = best"
| "argmax_scan best bv i (x # xs) =
     (if bv < x then argmax_scan i x (Suc i) xs else argmax_scan best bv (Suc i) xs)"

definition argmax_row :: "rat list \<Rightarrow> nat" where
  "argmax_row xs = (case xs of [] \<Rightarrow> 0 | x # rest \<Rightarrow> argmax_scan 0 x 1 rest)"

definition argmax1 :: "rat ndarray \<Rightarrow> error + nat list" where
  "argmax1 A = (if shape1 A = 0 then Inl ValueError else Inr (map argmax_row (data A)))"

section \<open>The solver's objects\<close>

text \<open>
  A gurobipy variable is identified by the attribute list of the model object that
  holds it and its position there: \<open>U k i l\<close> is \<^verbatim>\<open>criteria[k][i][l]\<close>,
  \<open>SigmaPlusX j\<close> is \<^verbatim>\<open>sigma_plus_x[j]\<close>, \<open>Binary j k\<close> is \<^verbatim>\<open>binary[j][k]\<close>.
  Expressions are kept as the Python operators build them; \<open>eval\<close> gives their value
  under an assignment of the variables.
\<close>

datatype var =
  U nat nat nat
  | SigmaPlusX nat
  | SigmaPlusY nat
  | SigmaMoinsX nat
  | SigmaMoinsY nat
  | Binary nat nat

datatype vtype = CONTINUOUS | BINARY

record var_decl =
  var_of :: var
  var_type :: vtype
  var_lb :: rat
  var_ub :: "rat option"

datatype expr =
  Var var
  | Const rat
  | Add expr expr
  | Sub expr expr
  | Mul expr expr

datatype constr = GE expr expr | LE expr expr | EQ expr expr

fun eval :: "(var \<Rightarrow> rat) \<Rightarrow> expr \<Rightarrow> rat" where
  "eval a (Var v) = a v"
| "eval a (Const c) = c"
| "eval a (Add e f) = eval a e + eval a f"
| "eval a (Sub e f) = eval a e - eval a f"
| "eval a (Mul e f) = eval a e * eval a f"

fun sat :: "(var \<Rightarrow> rat) \<Rightarrow> constr \<Rightarrow> bool" where
  "sat a (GE e f) \<longleftrightarrow> eval a e \<ge> eval a f"
| "sat a (LE e f) \<longleftrightarrow> eval a e \<le> eval a f"
| "sat a (EQ e f) \<longleftrightarrow> eval a e = eval a f"

text \<open>\<^verbatim>\<open>quicksum(es)\<close>: the sum of the expressions, starting from the empty one.\<close>

definition quicksum :: "expr list \<Rightarrow> expr" where
  "quicksum es = foldl Add (Const 0) es"

text \<open>
  The gurobipy \<^verbatim>\<open>Model\<close>: its variables, its constraints in the order they were
  added, and its objective (here always to be minimised).
\<close>

record grb_model =
  vars :: "var_decl list"
  constrs :: "constr list"
  objective :: "expr option"

definition addConstr :: "grb_model \<Rightarrow> constr \<Rightarrow> grb_model" where
  "addConstr m c = m\<lparr>constrs := constrs m @ [c]\<rparr>"

definition setObjective :: "grb_model \<Rightarrow> expr \<Rightarrow> grb_model" where
  "setObjective m e = m\<lparr>objective := Some e\<rparr>"

section \<open>\<^verbatim>\<open>TwoClustersMIP\<close>\<close>

text \<open>
  The object's attributes. \<^verbatim>\<open>self.L\<close>, \<^verbatim>\<open>self.K\<close>, \<^verbatim>\<open>self.n\<close>, \<^verbatim>\<open>self.P\<close> and
  \<^verbatim>\<open>self.M\<close> are the fields \<open>mip_L\<close>, \<open>mip_K\<close>, \<open>mip_n\<close>, \<open>mip_P\<close> and \<open>mip_M\<close> (a
  one-letter field name would capture the variables of every statement).
  \<^verbatim>\<open>n_pieces\<close> and \<^verbatim>\<open>n_clusters\<close> are counts, hence natural numbers.
  \<^verbatim>\<open>self.m\<close> and \<^verbatim>\<open>self.model\<close> are one object, the field \<open>model\<close>. The dict
  \<^verbatim>\<open>criterion_utilite\<close> is never written or read after construction and is left out.
\<close>

record mip =
  mip_L :: nat
  mip_K :: nat
  mip_n :: nat
  mip_seed :: nat
  mip_epsilon :: rat
  mip_P :: nat
  mip_M :: rat
  mip_bigM :: rat
  sum_utilite :: "nat \<times> nat \<times> nat \<rightharpoonup> expr"
  criteria :: "var list list list"
  sigma_plus_x :: "var list"
  sigma_plus_y :: "var list"
  sigma_moins_x :: "var list"
  sigma_moins_y :: "var list"
  binary :: "var list list"
  model :: grb_model

text \<open>
  \<^verbatim>\<open>instantiate\<close> (lines 185-199): the variables, created in the order of the
  comprehensions. A continuous variable given no bound has the solver's default
  bounds, 0 and no upper bound.
\<close>

definition continuous_unit :: "var \<Rightarrow> var_decl" where
  "continuous_unit v = \<lparr>var_of = v, var_type = CONTINUOUS, var_lb = 0, var_ub = Some 1\<rparr>"

definition continuous_slack :: "var \<Rightarrow> var_decl" where
  "continuous_slack v = \<lparr>var_of = v, var_type = CONTINUOUS, var_lb = 0, var_ub = None\<rparr>"

definition binary_var :: "var \<Rightarrow> var_decl" where
  "binary_var v = \<lparr>var_of = v, var_type = BINARY, var_lb = 0, var_ub = Some 1\<rparr>"

definition instantiate :: "mip \<Rightarrow> mip" where
  "instantiate self =
     (let crit = map (\<lambda>k. map (\<lambda>i. map (\<lambda>l. U k i l) [0..<mip_L self + 1])
                                [0..<mip_n self]) [0..<mip_K self];
          spx = map SigmaPlusX [0..<mip_P self];
          spy = map SigmaPlusY [0..<mip_P self];
          smx = map SigmaMoinsX [0..<mip_P self];
          smy = map SigmaMoinsY [0..<mip_P self];
          bin = map (\<lambda>j. map (\<lambda>k. Binary j k) [0..<mip_K self]) [0..<mip_P self]
      in self\<lparr>mip_bigM := 100, criteria := crit,
              sigma_plus_x := spx, sigma_plus_y := spy,
              sigma_moins_x := smx, sigma_moins_y := smy, binary := bin,
              model := \<lparr>vars = map continuous_unit (concat (concat crit))
                                 @ map continuous_slack spx @ map continuous_slack spy
                                 @ map continuous_slack smx @ map continuous_slack smy
                                 @ map binary_var (concat bin),
                        constrs = [], objective = None\<rparr>\<rparr>)"

text \<open>
  \<^verbatim>\<open>__init__\<close> (lines 164-183). The attributes that \<^verbatim>\<open>instantiate\<close> sets do not
  exist before it runs; they are empty here until it fills them.
\<close>

definition init :: "nat \<Rightarrow> nat \<Rightarrow> mip" where
  "init n_pieces n_clusters =
     instantiate
       \<lparr>mip_L = n_pieces, mip_K = n_clusters, mip_n = 4, mip_seed = 123,
        mip_epsilon = 1 / 1000, mip_P = 2000, mip_M = 5, mip_bigM = 0,
        sum_utilite = Map.empty, criteria = [],
        sigma_plus_x = [], sigma_plus_y = [], sigma_moins_x = [], sigma_moins_y = [],
        binary = [], model = \<lparr>vars = [], constrs = [], objective = None\<rparr>\<rparr>"

subsection \<open>\<^verbatim>\<open>fit\<close>: the local functions (lines 215-231)\<close>

text \<open>
  \<open>mins\<close> and \<open>maxs\<close> are the variables of \<^verbatim>\<open>fit\<close> that the local functions close
  over. \<open>li\<close> returns the floor as an integer; the \<^verbatim>\<open>int(...)\<close> of line 226 is then
  the identity. The product and the quotient of line 217 are exact here. In float64
  they round, and for a value just below the maximum the floor computed by the code can
  reach \<open>L\<close> where the exact one stays below it (line 231 then raises IndexError); the
  results below that say that \<open>fit\<close> returns for an interior value hold in exact
  arithmetic.
\<close>

definition li :: "mip \<Rightarrow> rat list \<Rightarrow> rat list \<Rightarrow> nat \<Rightarrow> rat \<Rightarrow> error + int" where
  "li self mins maxs i x =
     bind_err (getitem mins (int i)) (\<lambda>mn.
     bind_err (getitem maxs (int i)) (\<lambda>mx.
     bind_err (fdiv (of_nat (mip_L self) * (x - mn)) (mx - mn)) (\<lambda>q.
       Inr (floor q))))"

definition xl :: "mip \<Rightarrow> rat list \<Rightarrow> rat list \<Rightarrow> nat \<Rightarrow> int \<Rightarrow> error + rat" where
  "xl self mins maxs i l =
     bind_err (getitem mins (int i)) (\<lambda>mn.
     bind_err (getitem maxs (int i)) (\<lambda>mx.
     bind_err (fdiv (of_int l * (mx - mn)) (of_nat (mip_L self))) (\<lambda>q.
       Inr (mn + q))))"

text \<open>\<^verbatim>\<open>self.criteria[k][i][l]\<close>.\<close>

definition criteria_at :: "mip \<Rightarrow> nat \<Rightarrow> nat \<Rightarrow> int \<Rightarrow> error + var" where
  "criteria_at self k i l =
     bind_err (getitem (criteria self) (int k)) (\<lambda>ck.
     bind_err (getitem ck (int i)) (\<lambda>cki. getitem cki l))"

definition u_i ::
  "mip \<Rightarrow> rat list \<Rightarrow> rat list \<Rightarrow> nat \<Rightarrow> nat \<Rightarrow> rat ndarray \<Rightarrow> nat \<Rightarrow> error + expr" where
  "u_i self mins maxs j i X k =
     bind_err (getitem2 X j i) (\<lambda>x.
     bind_err (getitem maxs (int i)) (\<lambda>mx.
       if x = mx then bind_err (criteria_at self k i (- 1)) (\<lambda>v. Inr (Var v))
       else
         bind_err (li self mins maxs i x) (\<lambda>l.
         bind_err (xl self mins maxs i l) (\<lambda>x_l.
         bind_err (xl self mins maxs i (l + 1)) (\<lambda>x_l1.
         bind_err (criteria_at self k i l) (\<lambda>c_l.
         bind_err (fdiv (x - x_l) (x_l1 - x_l)) (\<lambda>q.
         bind_err (criteria_at self k i (l + 1)) (\<lambda>c_l1.
           Inr (Mul (Add (Var c_l) (Const q)) (Sub (Var c_l1) (Var c_l)))))))))))"

text \<open>\<^verbatim>\<open>quicksum([u_i(j,i,X,k) for i in range(self.n)])\<close> (lines 236, 237).\<close>

definition sum_u ::
  "mip \<Rightarrow> rat list \<Rightarrow> rat list \<Rightarrow> rat ndarray \<Rightarrow> nat \<Rightarrow> nat \<Rightarrow> error + expr" where
  "sum_u self mins maxs X k j =
     bind_err (comprehension (\<lambda>i. u_i self mins maxs j i X k) [0..<mip_n self]) (\<lambda>es.
       Inr (quicksum es))"

subsection \<open>\<^verbatim>\<open>fit\<close>: the loops (lines 234-270)\<close>

text \<open>Lines 234-237: the dict \<^verbatim>\<open>sum_utilite\<close>; key 0 is X, key 1 is Y.\<close>

definition utilities_loop ::
  "mip \<Rightarrow> rat list \<Rightarrow> rat list \<Rightarrow> rat ndarray \<Rightarrow> rat ndarray
     \<Rightarrow> (nat \<times> nat \<times> nat \<rightharpoonup> expr) \<Rightarrow> error + (nat \<times> nat \<times> nat \<rightharpoonup> expr)" where
  "utilities_loop self mins maxs X Y =
     for_each [0..<mip_K self] (\<lambda>k.
       for_each [0..<mip_P self] (\<lambda>j su.
         bind_err (sum_u self mins maxs X k j) (\<lambda>sx.
         bind_err (sum_u self mins maxs Y k j) (\<lambda>sy.
           Inr (su((0, k, j) \<mapsto> sx, (1, k, j) \<mapsto> sy))))))"

text \<open>
  Lines 250-253. \<open>bigM_lhs\<close> is the left-hand side, written twice in the source:
  \<^verbatim>\<open>sum_utilite[0,k,j] - sigma_plus_x[j] + sigma_moins_x[j] - sum_utilite[1,k,j]
  + sigma_plus_y[j] - sigma_moins_y[j]\<close>.
\<close>

definition bigM_lhs :: "mip \<Rightarrow> (nat \<times> nat \<times> nat \<rightharpoonup> expr) \<Rightarrow> nat \<Rightarrow> nat \<Rightarrow> error + expr" where
  "bigM_lhs self su j k =
     bind_err (lookup su (0, k, j)) (\<lambda>sx.
     bind_err (getitem (sigma_plus_x self) (int j)) (\<lambda>px.
     bind_err (getitem (sigma_moins_x self) (int j)) (\<lambda>mx.
     bind_err (lookup su (1, k, j)) (\<lambda>sy.
     bind_err (getitem (sigma_plus_y self) (int j)) (\<lambda>py.
     bind_err (getitem (sigma_moins_y self) (int j)) (\<lambda>my.
       Inr (Sub (Add (Sub (Add (Sub sx (Var px)) (Var mx)) sy) (Var py)) (Var my))))))))"

definition binary_at :: "mip \<Rightarrow> nat \<Rightarrow> nat \<Rightarrow> error + var" where
  "binary_at self j k =
     bind_err (getitem (binary self) (int j)) (\<lambda>bj. getitem bj (int k))"

definition bigM_lower :: "mip \<Rightarrow> (nat \<times> nat \<times> nat \<rightharpoonup> expr) \<Rightarrow> nat \<Rightarrow> nat \<Rightarrow> error + constr" where
  "bigM_lower self su j k =
     bind_err (bigM_lhs self su j k) (\<lambda>e.
     bind_err (binary_at self j k) (\<lambda>b.
       Inr (GE e (Mul (Const (- mip_M self)) (Sub (Const 1) (Var b))))))"

definition bigM_upper :: "mip \<Rightarrow> (nat \<times> nat \<times> nat \<rightharpoonup> expr) \<Rightarrow> nat \<Rightarrow> nat \<Rightarrow> error + constr" where
  "bigM_upper self su j k =
     bind_err (bigM_lhs self su j k) (\<lambda>e.
     bind_err (binary_at self j k) (\<lambda>b.
       Inr (LE e (Sub (Mul (Const (mip_M self)) (Var b)) (Const (mip_epsilon self))))))"

definition bigM_loop ::
  "mip \<Rightarrow> (nat \<times> nat \<times> nat \<rightharpoonup> expr) \<Rightarrow> grb_model \<Rightarrow> error + grb_model" where
  "bigM_loop self su =
     for_each [0..<mip_P self] (\<lambda>j.
       for_each [0..<mip_K self] (\<lambda>k m.
         bind_err (bigM_lower self su j k) (\<lambda>c1.
         bind_err (bigM_upper self su j k) (\<lambda>c2.
           Inr (addConstr (addConstr m c1) c2)))))"

text \<open>Lines 255-258.\<close>

definition monotone_constr :: "mip \<Rightarrow> nat \<Rightarrow> nat \<Rightarrow> nat \<Rightarrow> error + constr" where
  "monotone_constr self k i l =
     bind_err (criteria_at self k i (int l + 1)) (\<lambda>hi.
     bind_err (criteria_at self k i (int l)) (\<lambda>lo.
       Inr (GE (Sub (Var hi) (Var lo)) (Const (mip_epsilon self)))))"

definition monotone_loop :: "mip \<Rightarrow> grb_model \<Rightarrow> error + grb_model" where
  "monotone_loop self =
     for_each [0..<mip_K self] (\<lambda>k.
       for_each [0..<mip_n self] (\<lambda>i.
         for_each [0..<mip_L self] (\<lambda>l m.
           bind_err (monotone_constr self k i l) (\<lambda>c. Inr (addConstr m c)))))"

text \<open>Lines 260-262.\<close>

definition zero_constr :: "mip \<Rightarrow> nat \<Rightarrow> nat \<Rightarrow> error + constr" where
  "zero_constr self k i =
     bind_err (criteria_at self k i 0) (\<lambda>v. Inr (EQ (Var v) (Const 0)))"

definition zero_loop :: "mip \<Rightarrow> grb_model \<Rightarrow> error + grb_model" where
  "zero_loop self =
     for_each [0..<mip_K self] (\<lambda>k.
       for_each [0..<mip_n self] (\<lambda>i m.
         bind_err (zero_constr self k i) (\<lambda>c. Inr (addConstr m c))))"

text \<open>Lines 264-265; the index is \<^verbatim>\<open>self.L-1\<close>.\<close>

definition normalization_constr :: "mip \<Rightarrow> nat \<Rightarrow> error + constr" where
  "normalization_constr self k =
     bind_err (comprehension (\<lambda>i. criteria_at self k i (int (mip_L self) - 1))
                 [0..<mip_n self]) (\<lambda>vs.
       Inr (EQ (quicksum (map Var vs)) (Const 1)))"

definition normalization_loop :: "mip \<Rightarrow> grb_model \<Rightarrow> error + grb_model" where
  "normalization_loop self =
     for_each [0..<mip_K self] (\<lambda>k m.
       bind_err (normalization_constr self k) (\<lambda>c. Inr (addConstr m c)))"

text \<open>Lines 267-268.\<close>

definition coverage_constr :: "mip \<Rightarrow> nat \<Rightarrow> error + constr" where
  "coverage_constr self j =
     bind_err (comprehension (\<lambda>k. binary_at self j k) [0..<mip_K self]) (\<lambda>vs.
       Inr (GE (quicksum (map Var vs)) (Const 1)))"

definition coverage_loop :: "mip \<Rightarrow> grb_model \<Rightarrow> error + grb_model" where
  "coverage_loop self =
     for_each [0..<mip_P self] (\<lambda>j m.
       bind_err (coverage_constr self j) (\<lambda>c. Inr (addConstr m c)))"

text \<open>Line 270: the sum of the four slack variables of every pair.\<close>

definition slack_sum :: "mip \<Rightarrow> nat \<Rightarrow> error + expr" where
  "slack_sum self j =
     bind_err (getitem (sigma_plus_x self) (int j)) (\<lambda>px.
     bind_err (getitem (sigma_moins_x self) (int j)) (\<lambda>mx.
     bind_err (getitem (sigma_plus_y self) (int j)) (\<lambda>py.
     bind_err (getitem (sigma_moins_y self) (int j)) (\<lambda>my.
       Inr (Add (Add (Add (Var px) (Var mx)) (Var py)) (Var my))))))"

definition objective_expr :: "mip \<Rightarrow> error + expr" where
  "objective_expr self =
     bind_err (comprehension (slack_sum self) [0..<mip_P self]) (\<lambda>es. Inr (quicksum es))"

subsection \<open>\<^verbatim>\<open>fit\<close> (lines 202-275)\<close>

text \<open>
  \<open>fit\<close> builds the program and hands it to the solver. The two last calls,
  \<^verbatim>\<open>self.model.update()\<close> and \<^verbatim>\<open>self.model.optimize()\<close>, belong to the solver and
  are not modelled: the result is the object as it stands when the solver is called,
  so \<open>Inr\<close> says that the program was built without an exception, not that the solver
  call succeeded. An exception leaves \<open>Inl\<close> of it.
\<close>

definition fit :: "mip \<Rightarrow> rat ndarray \<Rightarrow> rat ndarray \<Rightarrow> error + mip" where
  "fit self X Y =
     bind_err (bind_err (concatenate0 X Y) amin0) (\<lambda>mins.
     bind_err (bind_err (concatenate0 X Y) amax0) (\<lambda>maxs.
     bind_err (utilities_loop self mins maxs X Y (sum_utilite self)) (\<lambda>su.
     bind_err (bigM_loop self su (model self)) (\<lambda>m1.
     bind_err (monotone_loop self m1) (\<lambda>m2.
     bind_err (zero_loop self m2) (\<lambda>m3.
     bind_err (normalization_loop self m3) (\<lambda>m4.
     bind_err (coverage_loop self m4) (\<lambda>m5.
     bind_err (objective_expr self) (\<lambda>obj.
       Inr (self\<lparr>sum_utilite := su, model := setObjective m5 obj\<rparr>))))))))))"

subsection \<open>\<^verbatim>\<open>predict_utility\<close> (lines 277-296)\<close>

text \<open>
  The loop only prints \<^verbatim>\<open>self.sum_utilite[0,k,j]\<close> and \<^verbatim>\<open>self.criteria[k][i][0]\<close>;
  the output is not modelled, the lookups (which may raise) are.
\<close>

definition predict_utility :: "mip \<Rightarrow> rat ndarray \<Rightarrow> error + rat ndarray" where
  "predict_utility self X =
     (let n_samples = shape0 X;
          decision_function = np_zeros n_samples (mip_K self)
      in bind_err
           (for_each [0..<mip_K self] (\<lambda>k.
              for_each [0..<mip_n self] (\<lambda>i.
                for_each [0..<mip_P self] (\<lambda>j (u::unit).
                  bind_err (lookup (sum_utilite self) (0, k, j)) (\<lambda>_.
                  bind_err (criteria_at self k i 0) (\<lambda>_. Inr u))))) ())
           (\<lambda>_. Inr decision_function))"

section \<open>\<^verbatim>\<open>BaseModel\<close>\<close>

text \<open>
  \<^verbatim>\<open>predict_preference\<close> (lines 44-63) and \<^verbatim>\<open>predict_cluster\<close> (lines 65-86)
  call \<^verbatim>\<open>self.predict_utility\<close>, the method of the subclass: it is the parameter
  \<open>pu\<close>.
\<close>

definition predict_preference ::
  "(rat ndarray \<Rightarrow> error + rat ndarray) \<Rightarrow> rat ndarray \<Rightarrow> rat ndarray \<Rightarrow> error + int ndarray" where
  "predict_preference pu X Y =
     bind_err (pu X) (\<lambda>X_u.
     bind_err (pu Y) (\<lambda>Y_u.
     bind_err (np_subtract X_u Y_u) (\<lambda>d. Inr (positive_as_int d))))"

definition predict_cluster ::
  "(rat ndarray \<Rightarrow> error + rat ndarray) \<Rightarrow> rat ndarray \<Rightarrow> rat ndarray \<Rightarrow> error + nat list" where
  "predict_cluster pu X Y =
     bind_err (pu X) (\<lambda>X_u.
     bind_err (pu Y) (\<lambda>Y_u.
     bind_err (np_subtract X_u Y_u) (\<lambda>d. argmax1 d)))"

section \<open>Definitions used to state the results\<close>

subsection \<open>What \<^verbatim>\<open>fit\<close> leaves in the model\<close>

text \<open>
  The constraints that \<^verbatim>\<open>fit\<close> adds to a freshly constructed object, loop by
  loop, and the object it returns. They are shown below to be what \<open>fit\<close> computes
  (\<open>fit_init_unfold\<close>); nothing is assumed about them.
\<close>

definition add_constrs :: "grb_model \<Rightarrow> constr list \<Rightarrow> grb_model" where
  "add_constrs m cs = m\<lparr>constrs := constrs m @ cs\<rparr>"

definition monotone_block :: "nat \<Rightarrow> nat \<Rightarrow> constr list" where
  "monotone_block L K =
     concat (map (\<lambda>k. concat (map (\<lambda>i.
       map (\<lambda>l. GE (Sub (Var (U k i (Suc l))) (Var (U k i l))) (Const (1 / 1000))) [0..<L])
       [0..<4])) [0..<K])"

definition zero_block :: "nat \<Rightarrow> constr list" where
  "zero_block K = concat (map (\<lambda>k. map (\<lambda>i. EQ (Var (U k i 0)) (Const 0)) [0..<4]) [0..<K])"

definition normalization_block :: "nat \<Rightarrow> nat \<Rightarrow> constr list" where
  "normalization_block L K =
     map (\<lambda>k. EQ (quicksum (map (\<lambda>i. Var (U k i (L - 1))) [0..<4])) (Const 1)) [0..<K]"

definition coverage_block :: "nat \<Rightarrow> constr list" where
  "coverage_block K =
     map (\<lambda>j. GE (quicksum (map (\<lambda>k. Var (Binary j k)) [0..<K])) (Const 1)) [0..<2000]"

definition bigM_expr :: "expr \<Rightarrow> expr \<Rightarrow> nat \<Rightarrow> expr" where
  "bigM_expr sx sy j =
     Sub (Add (Sub (Add (Sub sx (Var (SigmaPlusX j))) (Var (SigmaMoinsX j))) sy)
            (Var (SigmaPlusY j))) (Var (SigmaMoinsY j))"

definition bigM_pair :: "expr \<Rightarrow> expr \<Rightarrow> nat \<Rightarrow> nat \<Rightarrow> constr list" where
  "bigM_pair sx sy j k =
     [GE (bigM_expr sx sy j) (Mul (Const (- 5)) (Sub (Const 1) (Var (Binary j k)))),
      LE (bigM_expr sx sy j) (Sub (Mul (Const 5) (Var (Binary j k))) (Const (1 / 1000)))]"

definition bigM_block ::
  "nat \<Rightarrow> (nat \<Rightarrow> nat \<Rightarrow> expr) \<Rightarrow> (nat \<Rightarrow> nat \<Rightarrow> expr) \<Rightarrow> constr list" where
  "bigM_block K sx sy =
     concat (map (\<lambda>j. concat (map (\<lambda>k. bigM_pair (sx k j) (sy k j) j k) [0..<K])) [0..<2000])"

definition slack_objective :: expr where
  "slack_objective =
     quicksum (map (\<lambda>j. Add (Add (Add (Var (SigmaPlusX j)) (Var (SigmaMoinsX j)))
                               (Var (SigmaPlusY j))) (Var (SigmaMoinsY j))) [0..<2000])"

definition fitted ::
  "nat \<Rightarrow> nat \<Rightarrow> rat list \<Rightarrow> rat list \<Rightarrow> rat ndarray \<Rightarrow> rat ndarray
    \<Rightarrow> (nat \<times> nat \<times> nat \<rightharpoonup> expr) \<Rightarrow> mip" where
  "fitted L K mins maxs X Y su =
     (init L K)\<lparr>sum_utilite := su,
       model := setObjective
         (add_constrs (model (init L K))
            (bigM_block K (\<lambda>k j. projr (sum_u (init L K) mins maxs X k j))
                          (\<lambda>k j. projr (sum_u (init L K) mins maxs Y k j))
             @ monotone_block L K @ zero_block K @ normalization_block L K
             @ coverage_block K))
         slack_objective\<rparr>"

subsection \<open>Segments and breakpoints\<close>

text \<open>
  The segment index and the breakpoint coordinate as plain functions: what \<open>li\<close> and
  \<open>xl\<close> return when nothing fails (\<open>u_i_interior\<close>).
\<close>

definition segment :: "nat \<Rightarrow> rat \<Rightarrow> rat \<Rightarrow> rat \<Rightarrow> int" where
  "segment L mn mx x = \<lfloor>of_nat L * (x - mn) / (mx - mn)\<rfloor>"

definition breakpoint :: "nat \<Rightarrow> rat \<Rightarrow> rat \<Rightarrow> int \<Rightarrow> rat" where
  "breakpoint L mn mx l = mn + of_int l * (mx - mn) / of_nat L"

subsection \<open>Example inputs\<close>

text \<open>\<open>full r row\<close> is the array of \<open>r\<close> rows, each equal to \<open>row\<close>.\<close>

definition full :: "nat \<Rightarrow> rat list \<Rightarrow> rat ndarray" where
  "full r row = \<lparr>shape0 = r, shape1 = length row, data = replicate r row\<rparr>"

text \<open>
  \<open>spread\<close> has 2000 rows and 4 columns: 1000 rows of zeros, then 1000 rows of fours.
\<close>

definition spread :: "rat ndarray" where
  "spread = \<lparr>shape0 = 2000, shape1 = 4,
              data = replicate 1000 [0, 0, 0, 0] @ replicate 1000 [4, 4, 4, 4]\<rparr>"

text \<open>
  An assignment of the variables: \<open>u[k][i][l] = l / 4\<close>, every \<open>binary[j][k] = 1\<close>,
  every \<open>sigma_moins_x[j] = 5 / 2\<close>, every other slack 0. It respects the bounds of
  every variable for \<open>l \<le> 4\<close>.
\<close>

definition example_assignment :: "var \<Rightarrow> rat" where
  "example_assignment v =
     (case v of U k i l \<Rightarrow> of_nat l / 4 | SigmaMoinsX j \<Rightarrow> 5 / 2 | Binary j k \<Rightarrow> 1
      | _ \<Rightarrow> 0)"

text \<open>A model whose \<^verbatim>\<open>predict_utility\<close> returns its argument: one cluster per column.\<close>

definition utilities_are_features :: "rat ndarray \<Rightarrow> error + rat ndarray" where
  "utilities_are_features A = Inr A"

subsection \<open>The specification's formulas\<close>

text \<open>
  These two definitions follow the words of the specification, not the code; they are
  what the code is compared with.

  Section 4.1: for interior \<open>x\<close>, the interpolated utility is
  \<open>u[k][i][l] + (x - x_l)/(x_{l+1} - x_l) * (u[k][i][l+1] - u[k][i][l])\<close>, with
  \<open>l = floor(L * (x - min_i) / (max_i - min_i))\<close> and \<open>x_l\<close>, \<open>x_{l+1}\<close> the breakpoint
  coordinates.
\<close>

definition spec_interpolation :: "nat \<Rightarrow> rat \<Rightarrow> rat \<Rightarrow> rat \<Rightarrow> nat \<Rightarrow> nat \<Rightarrow> expr" where
  "spec_interpolation L mn mx x k i =
     (let l = nat (segment L mn mx x);
          x_l = breakpoint L mn mx (int l);
          x_l1 = breakpoint L mn mx (int l + 1)
      in Add (Var (U k i l))
             (Mul (Const ((x - x_l) / (x_l1 - x_l))) (Sub (Var (U k i (l + 1))) (Var (U k i l)))))"

text \<open>
  Section 4.2: \<open>expr = utilX - utilY + (sigma_plus_x - sigma_moins_x)
  - (sigma_plus_y - sigma_moins_y)\<close>.
\<close>

definition spec_bigM_expr :: "expr \<Rightarrow> expr \<Rightarrow> nat \<Rightarrow> expr" where
  "spec_bigM_expr utilX utilY j =
     Sub (Add (Sub utilX utilY) (Sub (Var (SigmaPlusX j)) (Var (SigmaMoinsX j))))
         (Sub (Var (SigmaPlusY j)) (Var (SigmaMoinsY j)))"

subsection \<open>The margin of a cluster\<close>

text \<open>
  The utility margin of cluster \<open>c\<close> on sample \<open>r\<close>: the entry of
  \<^verbatim>\<open>predict_utility(X) - predict_utility(Y)\<close>.
\<close>

definition margin :: "rat ndarray \<Rightarrow> rat ndarray \<Rightarrow> nat \<Rightarrow> nat \<Rightarrow> rat" where
  "margin X_u Y_u r c = data X_u ! r ! c - data Y_u ! r ! c"


section \<open>Basic facts\<close>

lemma bind_err_Inr [simp]: "bind_err (Inr x) f = f x"
  by (simp add: bind_err_def)

lemma bind_err_Inl [simp]: "bind_err (Inl e) f = Inl e"
  by (simp add: bind_err_def)

lemma bind_err_eq_Inr: "bind_err r f = Inr y \<longleftrightarrow> (\<exists>x. r = Inr x \<and> f x = Inr y)"
  by (cases r) simp_all

lemma getitem_nat: "i < length xs \<Longrightarrow> getitem xs (int i) = Inr (xs ! i)"
  by (simp add: getitem_def)

lemma getitem_beyond: "length xs \<le> i \<Longrightarrow> getitem xs (int i) = Inl IndexError"
  by (simp add: getitem_def)

lemma getitem_minus1: "xs \<noteq> [] \<Longrightarrow> getitem xs (- 1) = Inr (last xs)"
  by (cases xs rule: rev_cases) (simp_all add: getitem_def Let_def nat_add_distrib)

lemma getitem_nat_Inr: "getitem xs (int i) = Inr v \<Longrightarrow> i < length xs \<and> v = xs ! i"
  by (auto simp: getitem_def split: if_splits)

lemma for_each_append:
  "for_each (xs @ ys) body s = bind_err (for_each xs body s) (for_each ys body)"
proof (induction xs arbitrary: s)
  case Nil
  show ?case by simp
next
  case (Cons x xs)
  show ?case by (cases "body x s") (simp_all add: Cons.IH)
qed

lemma for_each_inv:
  assumes "for_each xs body s = Inr s'" and "I s"
    and "\<And>x s t. x \<in> set xs \<Longrightarrow> I s \<Longrightarrow> body x s = Inr t \<Longrightarrow> I t"
  shows "I s'"
  using assms
proof (induction xs arbitrary: s)
  case Nil
  then show ?case by simp
next
  case (Cons x xs)
  from Cons.prems(1) obtain t where t: "body x s = Inr t" "for_each xs body t = Inr s'"
    by (auto simp: bind_err_eq_Inr)
  have "I t" using Cons.prems(2,3) t(1) by (meson list.set_intros(1))
  then show ?case using Cons.IH [OF t(2)] Cons.prems(3) by (meson list.set_intros(2))
qed

lemma for_each_post:
  assumes "for_each xs body s = Inr s'" and "x \<in> set xs"
    and est: "\<And>s t. body x s = Inr t \<Longrightarrow> Q t"
    and pres: "\<And>y s t. y \<in> set xs \<Longrightarrow> Q s \<Longrightarrow> body y s = Inr t \<Longrightarrow> Q t"
  shows "Q s'"
  using assms(1,2) pres
proof (induction xs arbitrary: s)
  case Nil
  then show ?case by simp
next
  case (Cons y ys)
  from Cons.prems(1) obtain t where t: "body y s = Inr t" "for_each ys body t = Inr s'"
    by (auto simp: bind_err_eq_Inr)
  show ?case
  proof (cases "x = y")
    case True
    then have "Q t" using est t(1) by simp
    then show ?thesis using for_each_inv [OF t(2), of Q] Cons.prems(3)
      by (meson list.set_intros(2))
  next
    case False
    then have "x \<in> set ys" using Cons.prems(2) by simp
    then show ?thesis using Cons.IH [OF t(2)] Cons.prems(3)
      by (meson list.set_intros(2))
  qed
qed

lemma for_each_runs_body:
  assumes "for_each xs body s = Inr s'" and "x \<in> set xs"
  shows "\<exists>s1 s2. body x s1 = Inr s2"
  using assms
proof (induction xs arbitrary: s)
  case Nil
  then show ?case by simp
next
  case (Cons y ys)
  from Cons.prems(1) obtain t where t: "body y s = Inr t" "for_each ys body t = Inr s'"
    by (auto simp: bind_err_eq_Inr)
  show ?case
  proof (cases "x = y")
    case True
    then show ?thesis using t(1) by blast
  next
    case False
    then show ?thesis using Cons.IH [OF t(2)] Cons.prems(2) by simp
  qed
qed

lemma comprehension_map:
  "(\<And>x. x \<in> set xs \<Longrightarrow> f x = Inr (g x)) \<Longrightarrow> comprehension f xs = Inr (map g xs)"
  by (induction xs) simp_all

lemma comprehension_elem:
  "comprehension f xs = Inr ys \<Longrightarrow> x \<in> set xs \<Longrightarrow> \<exists>y. f x = Inr y"
  by (induction xs arbitrary: ys) (auto simp: bind_err_eq_Inr)

lemma comprehension_projr:
  "comprehension f xs = Inr ys \<Longrightarrow> ys = map (\<lambda>x. projr (f x)) xs"
  by (induction xs arbitrary: ys) (auto simp: bind_err_eq_Inr)

lemma add_constrs_Nil: "add_constrs m [] = m"
  by (simp add: add_constrs_def)

lemma add_constrs_twice: "add_constrs (add_constrs m a) b = add_constrs m (a @ b)"
  by (simp add: add_constrs_def)

lemma addConstr_add_constrs: "addConstr m c = add_constrs m [c]"
  by (simp add: addConstr_def add_constrs_def)

lemma for_each_add:
  assumes "\<And>x m. x \<in> set xs \<Longrightarrow> body x m = Inr (add_constrs m (g x))"
  shows "for_each xs body m = Inr (add_constrs m (concat (map g xs)))"
  using assms
proof (induction xs arbitrary: m)
  case Nil
  show ?case by (simp add: add_constrs_Nil)
next
  case (Cons x xs)
  have "body x m = Inr (add_constrs m (g x))" using Cons.prems by simp
  moreover have "for_each xs body (add_constrs m (g x))
      = Inr (add_constrs (add_constrs m (g x)) (concat (map g xs)))"
    using Cons.prems by (intro Cons.IH) simp
  ultimately show ?case by (simp add: add_constrs_twice)
qed

lemma init_params:
  "mip_L (init L K) = L" "mip_K (init L K) = K" "mip_n (init L K) = 4"
  "mip_P (init L K) = 2000" "mip_M (init L K) = 5" "mip_epsilon (init L K) = 1 / 1000"
  "sum_utilite (init L K) = Map.empty"
  by (simp_all add: init_def instantiate_def Let_def)

lemma init_lists:
  "criteria (init L K)
     = map (\<lambda>k. map (\<lambda>i. map (\<lambda>l. U k i l) [0..<L + 1]) [0..<4]) [0..<K]"
  "sigma_plus_x (init L K) = map SigmaPlusX [0..<2000]"
  "sigma_plus_y (init L K) = map SigmaPlusY [0..<2000]"
  "sigma_moins_x (init L K) = map SigmaMoinsX [0..<2000]"
  "sigma_moins_y (init L K) = map SigmaMoinsY [0..<2000]"
  "binary (init L K) = map (\<lambda>j. map (\<lambda>k. Binary j k) [0..<K]) [0..<2000]"
  by (simp_all add: init_def instantiate_def Let_def del: upt_Suc)

lemma init_model:
  "constrs (model (init L K)) = []" "objective (model (init L K)) = None"
  by (simp_all add: init_def instantiate_def Let_def)

lemma criteria_at_init:
  assumes "k < K" "i < 4" "l \<le> L"
  shows "criteria_at (init L K) k i (int l) = Inr (U k i l)"
  using assms by (simp add: criteria_at_def init_lists getitem_nat del: upt_Suc)

lemma criteria_at_init_last:
  assumes "k < K" "i < 4"
  shows "criteria_at (init L K) k i (- 1) = Inr (U k i L)"
  using assms by (simp add: criteria_at_def init_lists getitem_nat getitem_minus1 last_map)

lemma criteria_at_init_Inr:
  assumes "criteria_at (init L K) k i l = Inr v"
  shows "k < K \<and> i < 4"
  using assms
  by (auto simp: criteria_at_def init_lists bind_err_eq_Inr dest!: getitem_nat_Inr)

lemma binary_at_init:
  assumes "j < 2000" "k < K"
  shows "binary_at (init L K) j k = Inr (Binary j k)"
  using assms by (simp add: binary_at_def init_lists getitem_nat)

lemma sigma_init:
  assumes "j < 2000"
  shows "getitem (sigma_plus_x (init L K)) (int j) = Inr (SigmaPlusX j)"
    and "getitem (sigma_plus_y (init L K)) (int j) = Inr (SigmaPlusY j)"
    and "getitem (sigma_moins_x (init L K)) (int j) = Inr (SigmaMoinsX j)"
    and "getitem (sigma_moins_y (init L K)) (int j) = Inr (SigmaMoinsY j)"
  using assms by (simp_all add: init_lists getitem_nat)

lemma monotone_constr_init:
  assumes "k < K" "i < 4" "l < L"
  shows "monotone_constr (init L K) k i l
     = Inr (GE (Sub (Var (U k i (Suc l))) (Var (U k i l))) (Const (1 / 1000)))"
proof -
  have "int l + 1 = int (Suc l)" by simp
  moreover have "criteria_at (init L K) k i (int (Suc l)) = Inr (U k i (Suc l))"
    using assms by (intro criteria_at_init) simp_all
  moreover have "criteria_at (init L K) k i (int l) = Inr (U k i l)"
    using assms by (intro criteria_at_init) simp_all
  ultimately show ?thesis
    unfolding monotone_constr_def by (simp only: bind_err_Inr init_params)
qed

lemma zero_constr_init:
  assumes "k < K" "i < 4"
  shows "zero_constr (init L K) k i = Inr (EQ (Var (U k i 0)) (Const 0))"
proof -
  have "criteria_at (init L K) k i (int 0) = Inr (U k i 0)"
    using assms by (intro criteria_at_init) simp_all
  then show ?thesis by (simp add: zero_constr_def)
qed

lemma criteria_at_init_pred:
  assumes "k < K" "i < 4"
  shows "criteria_at (init L K) k i (int L - 1) = Inr (U k i (L - 1))"
proof (cases L)
  case 0
  then show ?thesis using criteria_at_init_last [OF assms, of 0] by simp
next
  case (Suc L')
  have "criteria_at (init L K) k i (int L') = Inr (U k i L')"
    using assms Suc by (intro criteria_at_init) simp_all
  then show ?thesis using Suc by simp
qed

lemma normalization_constr_init:
  assumes "k < K"
  shows "normalization_constr (init L K) k
     = Inr (EQ (quicksum (map (\<lambda>i. Var (U k i (L - 1))) [0..<4])) (Const 1))"
proof -
  have "comprehension (\<lambda>i. criteria_at (init L K) k i (int L - 1)) [0..<4]
      = Inr (map (\<lambda>i. U k i (L - 1)) [0..<4])"
    by (rule comprehension_map) (simp add: criteria_at_init_pred assms)
  then show ?thesis by (simp add: normalization_constr_def init_params comp_def)
qed

lemma coverage_constr_init:
  assumes "j < 2000"
  shows "coverage_constr (init L K) j
     = Inr (GE (quicksum (map (\<lambda>k. Var (Binary j k)) [0..<K])) (Const 1))"
proof -
  have "comprehension (\<lambda>k. binary_at (init L K) j k) [0..<K]
      = Inr (map (\<lambda>k. Binary j k) [0..<K])"
    by (rule comprehension_map) (simp add: binary_at_init assms)
  then show ?thesis by (simp add: coverage_constr_def init_params comp_def)
qed

lemma slack_sum_init:
  assumes "j < 2000"
  shows "slack_sum (init L K) j
     = Inr (Add (Add (Add (Var (SigmaPlusX j)) (Var (SigmaMoinsX j))) (Var (SigmaPlusY j)))
              (Var (SigmaMoinsY j)))"
  using assms by (simp add: slack_sum_def sigma_init)

lemma concat_map_single: "concat (map (\<lambda>x. [f x]) xs) = map f xs"
  by (induction xs) simp_all

lemma monotone_loop_init:
  "monotone_loop (init L K) m = Inr (add_constrs m (monotone_block L K))"
proof -
  let ?c = "\<lambda>k i l. GE (Sub (Var (U k i (Suc l))) (Var (U k i l))) (Const (1 / 1000))"
  have inner: "for_each [0..<L] (\<lambda>l m. bind_err (monotone_constr (init L K) k i l)
                   (\<lambda>c. Inr (addConstr m c))) m
      = Inr (add_constrs m (map (?c k i) [0..<L]))" if "k < K" "i < 4" for k i m
  proof -
    have "for_each [0..<L] (\<lambda>l m. bind_err (monotone_constr (init L K) k i l)
                   (\<lambda>c. Inr (addConstr m c))) m
      = Inr (add_constrs m (concat (map (\<lambda>l. [?c k i l]) [0..<L])))"
      by (rule for_each_add) (simp add: monotone_constr_init that addConstr_add_constrs)
    then show ?thesis by (simp only: concat_map_single)
  qed
  have mid: "for_each [0..<4] (\<lambda>i. for_each [0..<L] (\<lambda>l m.
                 bind_err (monotone_constr (init L K) k i l) (\<lambda>c. Inr (addConstr m c)))) m
      = Inr (add_constrs m (concat (map (\<lambda>i. map (?c k i) [0..<L]) [0..<4])))"
    if "k < K" for k m
    by (rule for_each_add) (simp add: inner that)
  have "for_each [0..<K] (\<lambda>k. for_each [0..<4] (\<lambda>i. for_each [0..<L] (\<lambda>l m.
                 bind_err (monotone_constr (init L K) k i l) (\<lambda>c. Inr (addConstr m c))))) m
      = Inr (add_constrs m (concat (map (\<lambda>k. concat (map (\<lambda>i. map (?c k i) [0..<L]) [0..<4]))
                [0..<K])))"
    by (rule for_each_add) (simp add: mid)
  then show ?thesis by (simp only: monotone_loop_def init_params monotone_block_def)
qed

lemma zero_loop_init: "zero_loop (init L K) m = Inr (add_constrs m (zero_block K))"
proof -
  let ?c = "\<lambda>k i. EQ (Var (U k i 0)) (Const 0)"
  have inner: "for_each [0..<4] (\<lambda>i m. bind_err (zero_constr (init L K) k i)
                   (\<lambda>c. Inr (addConstr m c))) m
      = Inr (add_constrs m (map (?c k) [0..<4]))" if "k < K" for k m
  proof -
    have "for_each [0..<4] (\<lambda>i m. bind_err (zero_constr (init L K) k i)
                   (\<lambda>c. Inr (addConstr m c))) m
      = Inr (add_constrs m (concat (map (\<lambda>i. [?c k i]) [0..<4])))"
      by (rule for_each_add) (simp add: zero_constr_init that addConstr_add_constrs)
    then show ?thesis by (simp only: concat_map_single)
  qed
  have "for_each [0..<K] (\<lambda>k. for_each [0..<4] (\<lambda>i m. bind_err (zero_constr (init L K) k i)
                   (\<lambda>c. Inr (addConstr m c)))) m
      = Inr (add_constrs m (concat (map (\<lambda>k. map (?c k) [0..<4]) [0..<K])))"
    by (rule for_each_add) (simp add: inner)
  then show ?thesis by (simp only: zero_loop_def init_params zero_block_def)
qed

lemma normalization_loop_init:
  "normalization_loop (init L K) m = Inr (add_constrs m (normalization_block L K))"
proof -
  let ?c = "\<lambda>k. EQ (quicksum (map (\<lambda>i. Var (U k i (L - 1))) [0..<4])) (Const 1)"
  have "for_each [0..<K] (\<lambda>k m. bind_err (normalization_constr (init L K) k)
                   (\<lambda>c. Inr (addConstr m c))) m
      = Inr (add_constrs m (concat (map (\<lambda>k. [?c k]) [0..<K])))"
    by (rule for_each_add) (simp add: normalization_constr_init addConstr_add_constrs)
  then show ?thesis
    by (simp only: concat_map_single normalization_loop_def init_params normalization_block_def)
qed

lemma coverage_loop_init:
  "coverage_loop (init L K) m = Inr (add_constrs m (coverage_block K))"
proof -
  let ?c = "\<lambda>j. GE (quicksum (map (\<lambda>k. Var (Binary j k)) [0..<K])) (Const 1)"
  have "for_each [0..<2000] (\<lambda>j m. bind_err (coverage_constr (init L K) j)
                   (\<lambda>c. Inr (addConstr m c))) m
      = Inr (add_constrs m (concat (map (\<lambda>j. [?c j]) [0..<2000])))"
    by (rule for_each_add) (simp add: coverage_constr_init addConstr_add_constrs)
  then show ?thesis
    by (simp only: concat_map_single coverage_loop_def init_params coverage_block_def)
qed

lemma objective_expr_init: "objective_expr (init L K) = Inr slack_objective"
proof -
  have "comprehension (slack_sum (init L K)) [0..<2000]
      = Inr (map (\<lambda>j. Add (Add (Add (Var (SigmaPlusX j)) (Var (SigmaMoinsX j)))
                               (Var (SigmaPlusY j))) (Var (SigmaMoinsY j))) [0..<2000])"
    by (rule comprehension_map) (simp add: slack_sum_init)
  then show ?thesis by (simp add: objective_expr_def init_params slack_objective_def)
qed

lemma bigM_loop_init:
  assumes "\<And>k j. k < K \<Longrightarrow> j < 2000 \<Longrightarrow> su (0, k, j) = Some (sx k j)"
      and "\<And>k j. k < K \<Longrightarrow> j < 2000 \<Longrightarrow> su (1, k, j) = Some (sy k j)"
  shows "bigM_loop (init L K) su m = Inr (add_constrs m (bigM_block K sx sy))"
proof -
  have lhs: "bigM_lhs (init L K) su j k = Inr (bigM_expr (sx k j) (sy k j) j)"
    if "k < K" "j < 2000" for j k
    using that assms by (simp add: bigM_lhs_def lookup_def sigma_init bigM_expr_def)
  have body: "bind_err (bigM_lower (init L K) su j k) (\<lambda>c1.
              bind_err (bigM_upper (init L K) su j k) (\<lambda>c2.
                Inr (addConstr (addConstr m c1) c2)))
      = Inr (add_constrs m (bigM_pair (sx k j) (sy k j) j k))" if "k < K" "j < 2000" for j k m
    using that
    by (simp add: bigM_lower_def bigM_upper_def lhs binary_at_init init_params
        addConstr_add_constrs add_constrs_twice bigM_pair_def)
  have inner: "for_each [0..<K] (\<lambda>k m.
              bind_err (bigM_lower (init L K) su j k) (\<lambda>c1.
              bind_err (bigM_upper (init L K) su j k) (\<lambda>c2.
                Inr (addConstr (addConstr m c1) c2)))) m
      = Inr (add_constrs m (concat (map (\<lambda>k. bigM_pair (sx k j) (sy k j) j k) [0..<K])))"
    if "j < 2000" for j m
    by (rule for_each_add) (simp add: body that)
  have "for_each [0..<2000] (\<lambda>j. for_each [0..<K] (\<lambda>k m.
              bind_err (bigM_lower (init L K) su j k) (\<lambda>c1.
              bind_err (bigM_upper (init L K) su j k) (\<lambda>c2.
                Inr (addConstr (addConstr m c1) c2))))) m
      = Inr (add_constrs m (concat (map (\<lambda>j.
               concat (map (\<lambda>k. bigM_pair (sx k j) (sy k j) j k) [0..<K])) [0..<2000])))"
    by (rule for_each_add) (simp add: inner)
  then show ?thesis by (simp only: bigM_loop_def init_params bigM_block_def)
qed

lemma for_each_total:
  assumes "\<And>x s. x \<in> set xs \<Longrightarrow> \<exists>t. body x s = Inr t"
  shows "\<exists>t. for_each xs body s = Inr t"
  using assms
proof (induction xs arbitrary: s)
  case Nil
  show ?case by simp
next
  case (Cons x xs)
  obtain t where t: "body x s = Inr t" using Cons.prems [of x s] by auto
  have "\<exists>t'. for_each xs body t = Inr t'" using Cons.prems by (intro Cons.IH) simp
  then show ?case using t by simp
qed

lemma column_concatenate:
  "concatenate0 X Y = Inr XY \<Longrightarrow> column XY i = column X i @ column Y i"
  by (auto simp: concatenate0_def column_def split: if_splits)

lemma pooled_min_Inr:
  assumes "bind_err (concatenate0 X Y) amin0 = Inr mins"
  shows "shape1 X = shape1 Y" and "0 < shape0 X + shape0 Y"
    and "mins = map (\<lambda>i. Min (set (column X i) \<union> set (column Y i))) [0..<shape1 X]"
  using assms
  by (auto simp: bind_err_eq_Inr concatenate0_def amin0_def column_def split: if_splits)

lemma pooled_max_Inr:
  assumes "bind_err (concatenate0 X Y) amax0 = Inr maxs"
  shows "shape1 X = shape1 Y" and "0 < shape0 X + shape0 Y"
    and "maxs = map (\<lambda>i. Max (set (column X i) \<union> set (column Y i))) [0..<shape1 X]"
  using assms
  by (auto simp: bind_err_eq_Inr concatenate0_def amax0_def column_def split: if_splits)

lemma pooled_Inr:
  assumes "shape1 X = shape1 Y" and "0 < shape0 X + shape0 Y"
  shows "bind_err (concatenate0 X Y) amin0
     = Inr (map (\<lambda>i. Min (set (column X i) \<union> set (column Y i))) [0..<shape1 X])"
    and "bind_err (concatenate0 X Y) amax0
     = Inr (map (\<lambda>i. Max (set (column X i) \<union> set (column Y i))) [0..<shape1 X])"
  using assms by (auto simp: concatenate0_def amin0_def amax0_def column_def)

lemma entry_in_column:
  assumes "well_shaped X" "j < shape0 X"
  shows "data X ! j ! i \<in> set (column X i)"
  using assms by (auto simp: well_shaped_def column_def)

lemma pooled_bounds:
  assumes "bind_err (concatenate0 X Y) amin0 = Inr mins"
      and "bind_err (concatenate0 X Y) amax0 = Inr maxs"
      and "Z = X \<or> Z = Y" and "i < shape1 Z"
  shows "i < length mins" and "i < length maxs"
    and "well_shaped Z \<Longrightarrow> j < shape0 Z \<Longrightarrow> mins ! i \<le> data Z ! j ! i"
    and "well_shaped Z \<Longrightarrow> j < shape0 Z \<Longrightarrow> data Z ! j ! i \<le> maxs ! i"
proof -
  note mn = pooled_min_Inr [OF assms(1)] and mx = pooled_max_Inr [OF assms(2)]
  have i: "i < shape1 X" using assms(3,4) mn(1) by auto
  show "i < length mins" "i < length maxs" using mn(3) mx(3) i by simp_all
  have fin: "finite (set (column X i) \<union> set (column Y i))" by simp
  have mem: "data Z ! j ! i \<in> set (column X i) \<union> set (column Y i)"
    if "well_shaped Z" "j < shape0 Z"
    using entry_in_column [OF that, of i] assms(3) by auto
  show "mins ! i \<le> data Z ! j ! i" if "well_shaped Z" "j < shape0 Z"
    using Min_le [OF fin mem [OF that]] mn(3) i by simp
  show "data Z ! j ! i \<le> maxs ! i" if "well_shaped Z" "j < shape0 Z"
    using Max_ge [OF fin mem [OF that]] mx(3) i by simp
qed

lemma u_i_at_max:
  assumes "j < shape0 X" "i < shape1 X" "i < length maxs" "data X ! j ! i = maxs ! i"
      and "k < K" "i < 4"
  shows "u_i (init L K) mins maxs j i X k = Inr (Var (U k i L))"
  using assms by (simp add: u_i_def getitem2_def getitem_nat criteria_at_init_last)

lemma segment_range:
  assumes "mn \<le> x" "x < mx" "0 < L"
  shows "0 \<le> segment L mn mx x" and "segment L mn mx x < int L"
proof -
  have pos: "0 < mx - mn" using assms by simp
  have "0 \<le> of_nat L * (x - mn) / (mx - mn)" using assms pos by simp
  then show "0 \<le> segment L mn mx x" by (simp add: segment_def)
  have "(x - mn) / (mx - mn) < 1" using assms pos by simp
  then have "of_nat L * ((x - mn) / (mx - mn)) < of_nat L * 1"
    using assms(3) by (intro mult_strict_left_mono) simp_all
  then have "of_nat L * (x - mn) / (mx - mn) < of_int (int L)" by simp
  then show "segment L mn mx x < int L" unfolding segment_def by (simp only: floor_less_iff)
qed

lemma breakpoint_step:
  assumes "mn < mx" "0 < L"
  shows "breakpoint L mn mx (l + 1) - breakpoint L mn mx l = (mx - mn) / of_nat L"
    and "breakpoint L mn mx (l + 1) - breakpoint L mn mx l \<noteq> 0"
proof -
  have "of_int (l + 1) * (mx - mn) / of_nat L - of_int l * (mx - mn) / of_nat L
      = (of_int (l + 1) * (mx - mn) - of_int l * (mx - mn)) / (of_nat L :: rat)"
    by (simp only: diff_divide_distrib)
  also have "\<dots> = (mx - mn) / of_nat L" by (simp add: algebra_simps)
  finally show "breakpoint L mn mx (l + 1) - breakpoint L mn mx l = (mx - mn) / of_nat L"
    by (simp add: breakpoint_def)
  then show "breakpoint L mn mx (l + 1) - breakpoint L mn mx l \<noteq> 0" using assms by simp
qed

lemma u_i_interior:
  assumes "j < shape0 X" "i < shape1 X" "i < length maxs" "i < length mins"
      and "mins ! i \<le> data X ! j ! i" "data X ! j ! i < maxs ! i" "0 < L" "k < K" "i < 4"
  defines "x \<equiv> data X ! j ! i"
  defines "l \<equiv> nat (segment L (mins ! i) (maxs ! i) x)"
  shows "l < L"
    and "u_i (init L K) mins maxs j i X k
      = Inr (Mul (Add (Var (U k i l))
                    (Const ((x - breakpoint L (mins ! i) (maxs ! i) (int l))
                       / (breakpoint L (mins ! i) (maxs ! i) (int l + 1)
                          - breakpoint L (mins ! i) (maxs ! i) (int l)))))
               (Sub (Var (U k i (Suc l))) (Var (U k i l))))"
proof -
  let ?mn = "mins ! i" and ?mx = "maxs ! i"
  have rng: "0 \<le> segment L ?mn ?mx x" "segment L ?mn ?mx x < int L"
    using segment_range [of ?mn x ?mx L] assms(5,6,7) by (simp_all add: x_def)
  then show "l < L" by (simp add: l_def)
  have seg: "segment L ?mn ?mx x = int l" using rng by (simp add: l_def)
  have ne: "x \<noteq> ?mx" "?mx - ?mn \<noteq> 0" "?mn < ?mx" using assms(5,6) by (simp_all add: x_def)
  have li: "li (init L K) mins maxs i x = Inr (int l)"
    using assms(3,4) ne seg by (simp add: li_def getitem_nat fdiv_def init_params segment_def)
  have xl: "xl (init L K) mins maxs i l' = Inr (breakpoint L ?mn ?mx l')" for l'
    using assms(3,4,7) by (simp add: xl_def getitem_nat fdiv_def init_params breakpoint_def)
  have c1: "criteria_at (init L K) k i (int l) = Inr (U k i l)"
    using assms(8,9) \<open>l < L\<close> by (intro criteria_at_init) simp_all
  have "criteria_at (init L K) k i (int (Suc l)) = Inr (U k i (Suc l))"
    using assms(8,9) \<open>l < L\<close> by (intro criteria_at_init) simp_all
  then have c2: "criteria_at (init L K) k i (int l + 1) = Inr (U k i (Suc l))"
    by (simp add: add.commute)
  have step: "breakpoint L ?mn ?mx (int l + 1) - breakpoint L ?mn ?mx (int l) \<noteq> 0"
    using breakpoint_step(2) [OF ne(3) assms(7)] .
  have x: "getitem2 X j i = Inr x" "getitem maxs (int i) = Inr ?mx"
    using assms(1,2,3) by (simp_all add: getitem2_def getitem_nat x_def)
  show "u_i (init L K) mins maxs j i X k
      = Inr (Mul (Add (Var (U k i l))
                    (Const ((x - breakpoint L ?mn ?mx (int l))
                       / (breakpoint L ?mn ?mx (int l + 1) - breakpoint L ?mn ?mx (int l)))))
               (Sub (Var (U k i (Suc l))) (Var (U k i l))))"
    unfolding u_i_def
    by (simp only: x bind_err_Inr ne(1) if_False li xl c1 c2 fdiv_def step)
qed

lemma u_i_total:
  assumes "bind_err (concatenate0 X Y) amin0 = Inr mins"
      and "bind_err (concatenate0 X Y) amax0 = Inr maxs"
      and "Z = X \<or> Z = Y" and "well_shaped Z" and "j < shape0 Z" and "i < shape1 Z"
      and "i < 4" and "k < K" and "0 < L"
  shows "\<exists>e. u_i (init L K) mins maxs j i Z k = Inr e"
proof -
  note b = pooled_bounds [OF assms(1,2,3,6)]
  show ?thesis
  proof (cases "data Z ! j ! i = maxs ! i")
    case True
    then show ?thesis using u_i_at_max [of j Z i maxs k K L mins] assms b(2) by simp
  next
    case False
    then have "data Z ! j ! i < maxs ! i" using b(4) [OF assms(4,5)] by simp
    then show ?thesis
      using u_i_interior(2) [of j Z i maxs mins L k K] assms b(1,2) b(3) [OF assms(4,5)]
      by simp
  qed
qed

lemma comprehension_total:
  assumes "\<And>x. x \<in> set xs \<Longrightarrow> \<exists>y. f x = Inr y"
  shows "\<exists>ys. comprehension f xs = Inr ys"
  using assms
proof (induction xs)
  case Nil
  show ?case by simp
next
  case (Cons x xs)
  obtain y where "f x = Inr y" using Cons.prems [of x] by auto
  moreover obtain ys where "comprehension f xs = Inr ys" using Cons by auto
  ultimately show ?case by simp
qed

lemma sum_u_total:
  assumes "\<And>i. i < 4 \<Longrightarrow> \<exists>e. u_i (init L K) mins maxs j i X k = Inr e"
  shows "\<exists>e. sum_u (init L K) mins maxs X k j = Inr e"
proof -
  have "\<exists>es. comprehension (\<lambda>i. u_i (init L K) mins maxs j i X k) [0..<4] = Inr es"
    by (rule comprehension_total) (simp add: assms)
  then show ?thesis by (auto simp: sum_u_def init_params)
qed

lemma sum_u_Inr:
  assumes "sum_u (init L K) mins maxs X k j = Inr e" "i < 4"
  shows "\<exists>e'. u_i (init L K) mins maxs j i X k = Inr e'"
  using assms
  by (auto simp: sum_u_def init_params bind_err_eq_Inr dest!: comprehension_elem [where x = i])

lemma utilities_loop_post:
  assumes "utilities_loop self mins maxs X Y su0 = Inr su" "k < mip_K self" "j < mip_P self"
  shows "\<exists>sx sy. sum_u self mins maxs X k j = Inr sx \<and> sum_u self mins maxs Y k j = Inr sy
           \<and> su (0, k, j) = Some sx \<and> su (1, k, j) = Some sy"
proof -
  let ?Q = "\<lambda>su :: nat \<times> nat \<times> nat \<rightharpoonup> expr. \<exists>sx sy. sum_u self mins maxs X k j = Inr sx
                \<and> sum_u self mins maxs Y k j = Inr sy
                \<and> su (0, k, j) = Some sx \<and> su (1, k, j) = Some sy"
  let ?body = "\<lambda>k j (su :: nat \<times> nat \<times> nat \<rightharpoonup> expr).
         bind_err (sum_u self mins maxs X k j) (\<lambda>sx.
         bind_err (sum_u self mins maxs Y k j) (\<lambda>sy.
           Inr (su((0, k, j) \<mapsto> sx, (1, k, j) \<mapsto> sy))))"
  have est: "?Q t" if "?body k j s = Inr t" for s t
    using that by (auto simp: bind_err_eq_Inr)
  have pres: "?Q t" if "?Q s" "?body k' j' s = Inr t" for k' j' s t
    using that by (auto simp: bind_err_eq_Inr)
  have inner_pres: "?Q t" if "?Q s" "for_each [0..<mip_P self] (?body k') s = Inr t" for k' s t
  proof (rule for_each_inv [where I = ?Q, OF that(2) that(1)])
    fix x s t assume "?Q s" "?body k' x s = Inr t"
    then show "?Q t" by (rule pres)
  qed
  have inner_est: "?Q t" if "for_each [0..<mip_P self] (?body k) s = Inr t" for s t
  proof (rule for_each_post [where Q = ?Q and x = j, OF that])
    show "j \<in> set [0..<mip_P self]" using assms(3) by simp
  next
    fix s t assume "?body k j s = Inr t"
    then show "?Q t" by (rule est)
  next
    fix y s t assume "?Q s" "?body k y s = Inr t"
    then show "?Q t" by (rule pres)
  qed
  show ?thesis
  proof (rule for_each_post [where Q = ?Q and x = k,
        OF assms(1) [unfolded utilities_loop_def]])
    show "k \<in> set [0..<mip_K self]" using assms(2) by simp
  next
    fix s t assume "for_each [0..<mip_P self] (?body k) s = Inr t"
    then show "?Q t" by (rule inner_est)
  next
    fix y s t assume "?Q s" "for_each [0..<mip_P self] (?body y) s = Inr t"
    then show "?Q t" by (rule inner_pres)
  qed
qed

lemma utilities_loop_total:
  assumes "\<And>k j. k < mip_K self \<Longrightarrow> j < mip_P self \<Longrightarrow>
             (\<exists>sx. sum_u self mins maxs X k j = Inr sx) \<and> (\<exists>sy. sum_u self mins maxs Y k j = Inr sy)"
  shows "\<exists>su. utilities_loop self mins maxs X Y su0 = Inr su"
  unfolding utilities_loop_def
proof (rule for_each_total)
  fix k s assume "k \<in> set [0..<mip_K self]"
  then have k: "k < mip_K self" by simp
  show "\<exists>t. for_each [0..<mip_P self]
              (\<lambda>j su. bind_err (sum_u self mins maxs X k j) (\<lambda>sx.
                       bind_err (sum_u self mins maxs Y k j) (\<lambda>sy.
                         Inr (su((0, k, j) \<mapsto> sx, (1, k, j) \<mapsto> sy))))) s = Inr t"
  proof (rule for_each_total)
    fix j s' assume "j \<in> set [0..<mip_P self]"
    then have "j < mip_P self" by simp
    from assms [OF k this] show "\<exists>t. bind_err (sum_u self mins maxs X k j) (\<lambda>sx.
                       bind_err (sum_u self mins maxs Y k j) (\<lambda>sy.
                         Inr (s'((0, k, j) \<mapsto> sx, (1, k, j) \<mapsto> sy)))) = Inr t"
      by auto
  qed
qed

lemma fit_init_unfold:
  "fit (init L K) X Y =
     bind_err (bind_err (concatenate0 X Y) amin0) (\<lambda>mins.
     bind_err (bind_err (concatenate0 X Y) amax0) (\<lambda>maxs.
     bind_err (utilities_loop (init L K) mins maxs X Y Map.empty) (\<lambda>su.
       Inr (fitted L K mins maxs X Y su))))"
proof -
  have tail: "bind_err (bigM_loop (init L K) su (model (init L K))) (\<lambda>m1.
     bind_err (monotone_loop (init L K) m1) (\<lambda>m2.
     bind_err (zero_loop (init L K) m2) (\<lambda>m3.
     bind_err (normalization_loop (init L K) m3) (\<lambda>m4.
     bind_err (coverage_loop (init L K) m4) (\<lambda>m5.
     bind_err (objective_expr (init L K)) (\<lambda>obj.
       Inr ((init L K)\<lparr>sum_utilite := su, model := setObjective m5 obj\<rparr>)))))))
     = Inr (fitted L K mins maxs X Y su)"
    if su: "utilities_loop (init L K) mins maxs X Y Map.empty = Inr su" for mins maxs su
  proof -
    have keys: "su (0, k, j) = Some (projr (sum_u (init L K) mins maxs X k j))"
               "su (1, k, j) = Some (projr (sum_u (init L K) mins maxs Y k j))"
      if "k < K" "j < 2000" for k j
      using utilities_loop_post [OF su, of k j] that by (auto simp: init_params)
    show ?thesis
      by (simp add: bigM_loop_init [of K su, OF keys] monotone_loop_init zero_loop_init
          normalization_loop_init coverage_loop_init objective_expr_init add_constrs_twice
          fitted_def)
  qed
  show ?thesis
  proof (cases "bind_err (concatenate0 X Y) amin0")
    case (Inl e)
    then show ?thesis by (simp add: fit_def)
  next
    case mins: (Inr mins)
    show ?thesis
    proof (cases "bind_err (concatenate0 X Y) amax0")
      case (Inl e)
      then show ?thesis using mins by (simp add: fit_def)
    next
      case maxs: (Inr maxs)
      show ?thesis
      proof (cases "utilities_loop (init L K) mins maxs X Y Map.empty")
        case (Inl e)
        then show ?thesis using mins maxs by (simp add: fit_def init_params)
      next
        case (Inr su)
        then show ?thesis using mins maxs tail [OF Inr] by (simp add: fit_def init_params)
      qed
    qed
  qed
qed

lemma fit_init_Inr:
  assumes "fit (init L K) X Y = Inr self'"
  obtains mins maxs su where
    "bind_err (concatenate0 X Y) amin0 = Inr mins"
    "bind_err (concatenate0 X Y) amax0 = Inr maxs"
    "utilities_loop (init L K) mins maxs X Y Map.empty = Inr su"
    "self' = fitted L K mins maxs X Y su"
  using assms unfolding fit_init_unfold by (auto simp: bind_err_eq_Inr)

lemma constrs_fitted:
  "constrs (model (fitted L K mins maxs X Y su))
     = bigM_block K (\<lambda>k j. projr (sum_u (init L K) mins maxs X k j))
                    (\<lambda>k j. projr (sum_u (init L K) mins maxs Y k j))
       @ monotone_block L K @ zero_block K @ normalization_block L K @ coverage_block K"
  by (simp add: fitted_def setObjective_def add_constrs_def init_model)

lemma fitted_params:
  "mip_L (fitted L K mins maxs X Y su) = L" "mip_K (fitted L K mins maxs X Y su) = K"
  "mip_n (fitted L K mins maxs X Y su) = 4" "mip_P (fitted L K mins maxs X Y su) = 2000"
  "mip_epsilon (fitted L K mins maxs X Y su) = 1 / 1000"
  "mip_M (fitted L K mins maxs X Y su) = 5"
  "sum_utilite (fitted L K mins maxs X Y su) = su"
  "criteria (fitted L K mins maxs X Y su) = criteria (init L K)"
  "vars (model (fitted L K mins maxs X Y su)) = vars (model (init L K))"
  by (simp_all add: fitted_def init_params setObjective_def add_constrs_def)

lemma fit_total:
  assumes "well_shaped X" "well_shaped Y" "shape1 X = shape1 Y" "0 < L"
      and "2000 \<le> shape0 X" "2000 \<le> shape0 Y" "4 \<le> shape1 X"
  shows "\<exists>self'. fit (init L K) X Y = Inr self'"
proof -
  have pos: "0 < shape0 X + shape0 Y" using assms(5) by simp
  note pool = pooled_Inr [OF assms(3) pos]
  let ?mins = "map (\<lambda>i. Min (set (column X i) \<union> set (column Y i))) [0..<shape1 X]"
  let ?maxs = "map (\<lambda>i. Max (set (column X i) \<union> set (column Y i))) [0..<shape1 X]"
  have "(\<exists>sx. sum_u (init L K) ?mins ?maxs X k j = Inr sx)
      \<and> (\<exists>sy. sum_u (init L K) ?mins ?maxs Y k j = Inr sy)"
    if "k < mip_K (init L K)" "j < mip_P (init L K)" for k j
  proof -
    have k: "k < K" and j: "j < shape0 X" "j < shape0 Y"
      using that assms(5,6) by (simp_all add: init_params)
    have "\<exists>e. u_i (init L K) ?mins ?maxs j i X k = Inr e" if "i < 4" for i
      using u_i_total [OF pool, of X j i k K L] that assms(1,7) j(1) k assms(4) by simp
    moreover have "\<exists>e. u_i (init L K) ?mins ?maxs j i Y k = Inr e" if "i < 4" for i
      using u_i_total [OF pool, of Y j i k K L] that assms(2,3,7) j(2) k assms(4) by simp
    ultimately show ?thesis by (simp add: sum_u_total)
  qed
  then obtain su where "utilities_loop (init L K) ?mins ?maxs X Y Map.empty = Inr su"
    using utilities_loop_total [of "init L K" ?mins ?maxs X Y Map.empty] by blast
  then show ?thesis by (simp add: fit_init_unfold pool)
qed

lemma fit_total_no_cluster:
  assumes "shape1 X = shape1 Y" "0 < shape0 X + shape0 Y"
  shows "\<exists>self'. fit (init L 0) X Y = Inr self'"
  by (simp add: fit_init_unfold pooled_Inr [OF assms] utilities_loop_def init_params)

lemma fit_needs_shape:
  assumes "fit (init L K) X Y = Inr self'" "0 < K"
  shows "2000 \<le> shape0 X \<and> 4 \<le> shape1 X \<and> 2000 \<le> shape0 Y \<and> 4 \<le> shape1 Y"
proof -
  from assms(1) obtain mins maxs su where
    su: "utilities_loop (init L K) mins maxs X Y Map.empty = Inr su"
    by (rule fit_init_Inr)
  from utilities_loop_post [OF su, of 0 1999] assms(2) obtain sx sy where
    s: "sum_u (init L K) mins maxs X 0 1999 = Inr sx" "sum_u (init L K) mins maxs Y 0 1999 = Inr sy"
    by (auto simp: init_params)
  from sum_u_Inr [OF s(1), of 3] sum_u_Inr [OF s(2), of 3] show ?thesis
    by (auto simp: u_i_def getitem2_def bind_err_eq_Inr split: if_splits)
qed

lemma well_shaped_full: "well_shaped (full r row)"
  by (simp add: well_shaped_def full_def list_all_iff)

lemma full_shape: "shape0 (full r row) = r" "shape1 (full r row) = length row"
  by (simp_all add: full_def)

lemma full_entry: "j < r \<Longrightarrow> data (full r row) ! j = row"
  by (simp add: full_def)

lemma column_full: "0 < r \<Longrightarrow> set (column (full r row) i) = {row ! i}"
  by (simp add: column_def full_def)

lemma pooled_full:
  assumes "length a = length b" "0 < r" "0 < r'"
  shows "bind_err (concatenate0 (full r a) (full r' b)) amin0
           = Inr (map (\<lambda>i. min (a ! i) (b ! i)) [0..<length a])"
    and "bind_err (concatenate0 (full r a) (full r' b)) amax0
           = Inr (map (\<lambda>i. max (a ! i) (b ! i)) [0..<length a])"
  using assms by (simp_all add: pooled_Inr full_shape column_full min.commute max.commute)

lemma argmax_scan_correct:
  assumes "best < length pre" "bv = pre ! best" "\<forall>c<length pre. pre ! c \<le> bv"
      and "\<forall>c<best. pre ! c < bv" "i = length pre"
  shows "argmax_scan best bv i xs < length (pre @ xs)
       \<and> (\<forall>c<length (pre @ xs). (pre @ xs) ! c \<le> (pre @ xs) ! argmax_scan best bv i xs)
       \<and> (\<forall>c<argmax_scan best bv i xs. (pre @ xs) ! c < (pre @ xs) ! argmax_scan best bv i xs)"
  using assms
proof (induction xs arbitrary: pre best bv i)
  case Nil
  then show ?case by simp
next
  case (Cons x xs)
  have app: "pre @ x # xs = (pre @ [x]) @ xs" by simp
  show ?case
  proof (cases "bv < x")
    case True
    have "argmax_scan (length pre) x (Suc (length pre)) xs < length ((pre @ [x]) @ xs)
       \<and> (\<forall>c<length ((pre @ [x]) @ xs). ((pre @ [x]) @ xs) ! c
             \<le> ((pre @ [x]) @ xs) ! argmax_scan (length pre) x (Suc (length pre)) xs)
       \<and> (\<forall>c<argmax_scan (length pre) x (Suc (length pre)) xs. ((pre @ [x]) @ xs) ! c
             < ((pre @ [x]) @ xs) ! argmax_scan (length pre) x (Suc (length pre)) xs)"
    proof (rule Cons.IH)
      show "\<forall>c<length (pre @ [x]). (pre @ [x]) ! c \<le> x"
        using Cons.prems(3) True by (auto simp: nth_append less_Suc_eq)
      show "\<forall>c<length pre. (pre @ [x]) ! c < x"
        using Cons.prems(3) True by (auto simp: nth_append)
    qed simp_all
    then show ?thesis using True Cons.prems(5) unfolding app by simp
  next
    case False
    have "argmax_scan best bv (Suc (length pre)) xs < length ((pre @ [x]) @ xs)
       \<and> (\<forall>c<length ((pre @ [x]) @ xs). ((pre @ [x]) @ xs) ! c
             \<le> ((pre @ [x]) @ xs) ! argmax_scan best bv (Suc (length pre)) xs)
       \<and> (\<forall>c<argmax_scan best bv (Suc (length pre)) xs. ((pre @ [x]) @ xs) ! c
             < ((pre @ [x]) @ xs) ! argmax_scan best bv (Suc (length pre)) xs)"
    proof (rule Cons.IH)
      show "best < length (pre @ [x])" using Cons.prems(1) by simp
      show "bv = (pre @ [x]) ! best" using Cons.prems(1,2) by (simp add: nth_append)
      show "\<forall>c<length (pre @ [x]). (pre @ [x]) ! c \<le> bv"
        using Cons.prems(3) False by (auto simp: nth_append less_Suc_eq)
      show "\<forall>c<best. (pre @ [x]) ! c < bv"
        using Cons.prems(1,4) by (auto simp: nth_append)
    qed simp
    then show ?thesis using False Cons.prems(5) unfolding app by simp
  qed
qed

lemma argmax_row_correct:
  assumes "xs \<noteq> []"
  shows "argmax_row xs < length xs
       \<and> (\<forall>c<length xs. xs ! c \<le> xs ! argmax_row xs)
       \<and> (\<forall>c<argmax_row xs. xs ! c < xs ! argmax_row xs)"
proof -
  obtain x rest where xs: "xs = x # rest" using assms by (cases xs) auto
  have "argmax_scan 0 x 1 rest < length ([x] @ rest)
       \<and> (\<forall>c<length ([x] @ rest). ([x] @ rest) ! c \<le> ([x] @ rest) ! argmax_scan 0 x 1 rest)
       \<and> (\<forall>c<argmax_scan 0 x 1 rest. ([x] @ rest) ! c < ([x] @ rest) ! argmax_scan 0 x 1 rest)"
    by (rule argmax_scan_correct) simp_all
  then show ?thesis by (simp add: xs argmax_row_def)
qed

lemma argmax_scan_none_greater:
  "\<forall>x\<in>set xs. \<not> bv < x \<Longrightarrow> argmax_scan best bv i xs = best"
  by (induction xs arbitrary: i) simp_all

lemma argmax_row_replicate: "argmax_row (replicate n v) = 0"
  by (cases n) (simp_all add: argmax_row_def argmax_scan_none_greater)

lemma np_subtract_same_shape:
  assumes "shape0 A = shape0 B" "shape1 A = shape1 B"
  shows "np_subtract A B
     = Inr \<lparr>shape0 = shape0 A, shape1 = shape1 A,
            data = map (\<lambda>r. map (\<lambda>c. data A ! r ! c - data B ! r ! c) [0..<shape1 A])
                     [0..<shape0 A]\<rparr>"
  using assms by (auto simp: np_subtract_def broadcast_dim_def bcast_at_def)

lemma criteria_at_fitted:
  "criteria_at (fitted L K mins maxs X Y su) k i l = criteria_at (init L K) k i l"
  by (simp add: criteria_at_def fitted_params)

lemma predict_utility_after_fit:
  assumes "fit (init L K) X0 Y0 = Inr self'"
  shows "predict_utility self' X = Inr (np_zeros (shape0 X) K)"
proof -
  from assms obtain mins maxs su where
    su: "utilities_loop (init L K) mins maxs X0 Y0 Map.empty = Inr su"
    and s: "self' = fitted L K mins maxs X0 Y0 su"
    by (rule fit_init_Inr)
  have body: "\<exists>t. bind_err (lookup su (0, k, j)) (\<lambda>_.
                 bind_err (criteria_at self' k i 0) (\<lambda>_. Inr u)) = Inr t"
    if kij: "k < K" "i < 4" "j < 2000" for k i j and u :: unit
  proof -
    obtain sx where "su (0, k, j) = Some sx"
      using utilities_loop_post [OF su, of k j] kij by (auto simp: init_params)
    moreover have "criteria_at self' k i 0 = Inr (U k i 0)"
      using criteria_at_init [of k K i 0 L] kij by (simp add: s criteria_at_fitted)
    ultimately show ?thesis by (simp add: lookup_def)
  qed
  have "\<exists>t. for_each [0..<K] (\<lambda>k.
              for_each [0..<4] (\<lambda>i.
                for_each [0..<2000] (\<lambda>j (u::unit).
                  bind_err (lookup su (0, k, j)) (\<lambda>_.
                  bind_err (criteria_at self' k i 0) (\<lambda>_. Inr u))))) () = Inr t"
  proof (rule for_each_total)
    fix k and s :: unit assume "k \<in> set [0..<K]"
    then have k: "k < K" by simp
    show "\<exists>t. for_each [0..<4] (\<lambda>i.
                for_each [0..<2000] (\<lambda>j (u::unit).
                  bind_err (lookup su (0, k, j)) (\<lambda>_.
                  bind_err (criteria_at self' k i 0) (\<lambda>_. Inr u)))) s = Inr t"
    proof (rule for_each_total)
      fix i and s :: unit assume "i \<in> set [0..<4]"
      then have i: "i < 4" by (simp del: upt_rec_numeral)
      show "\<exists>t. for_each [0..<2000] (\<lambda>j (u::unit).
                  bind_err (lookup su (0, k, j)) (\<lambda>_.
                  bind_err (criteria_at self' k i 0) (\<lambda>_. Inr u))) s = Inr t"
      proof (rule for_each_total)
        fix j and u :: unit assume "j \<in> set [0..<2000]"
        then have "j < 2000" by simp
        then show "\<exists>t. bind_err (lookup su (0, k, j)) (\<lambda>_.
                  bind_err (criteria_at self' k i 0) (\<lambda>_. Inr u)) = Inr t"
          using body [OF k i] by simp
      qed
    qed
  qed
  then show ?thesis
    by (auto simp: predict_utility_def s fitted_params Let_def)
qed

lemma np_subtract_zeros:
  "np_subtract (np_zeros n K) (np_zeros n K) = Inr (np_zeros n K)"
proof -
  have "map (\<lambda>r. map (\<lambda>c. data (np_zeros n K) ! r ! c - data (np_zeros n K) ! r ! c) [0..<K])
          [0..<n] = replicate n (replicate K 0)"
    by (simp add: map_replicate_const)
  then show ?thesis
    using np_subtract_same_shape [of "np_zeros n K" "np_zeros n K"]
    by (simp add: np_zeros_def)
qed

lemma for_each_Inl:
  "for_each xs body s = Inl e \<Longrightarrow> \<exists>x\<in>set xs. \<exists>s'. body x s' = Inl e"
proof (induction xs arbitrary: s)
  case Nil
  then show ?case by simp
next
  case (Cons x xs)
  show ?case
  proof (cases "body x s")
    case (Inl e')
    then show ?thesis using Cons.prems by auto
  next
    case (Inr t)
    then have "for_each xs body t = Inl e" using Cons.prems by simp
    from Cons.IH [OF this] show ?thesis by auto
  qed
qed

lemma comprehension_Inl:
  "comprehension f xs = Inl e \<Longrightarrow> \<exists>x\<in>set xs. f x = Inl e"
proof (induction xs)
  case Nil
  then show ?case by simp
next
  case (Cons x xs)
  show ?case
  proof (cases "f x")
    case (Inl e')
    then show ?thesis using Cons.prems by auto
  next
    case fx: (Inr y)
    show ?thesis
    proof (cases "comprehension f xs")
      case (Inl e')
      then show ?thesis using Cons fx by auto
    next
      case (Inr ys)
      then show ?thesis using Cons.prems fx by simp
    qed
  qed
qed

lemma u_i_error:
  assumes "bind_err (concatenate0 X Y) amin0 = Inr mins"
      and "bind_err (concatenate0 X Y) amax0 = Inr maxs"
      and "well_shaped X" "well_shaped Y" "Z = X \<or> Z = Y" "i < 4" "k < K" "0 < L"
      and "u_i (init L K) mins maxs j i Z k = Inl e"
  shows "e = IndexError"
proof (cases "j < shape0 Z \<and> i < shape1 Z")
  case True
  then have "\<exists>e'. u_i (init L K) mins maxs j i Z k = Inr e'"
    using u_i_total [OF assms(1,2,5), of j i k K L] assms(3,4,5,6,7,8) by auto
  then show ?thesis using assms(9) by auto
next
  case False
  then have "getitem2 Z j i = Inl IndexError" by (auto simp: getitem2_def)
  then show ?thesis using assms(9) by (simp add: u_i_def)
qed

lemma utilities_loop_error:
  assumes "bind_err (concatenate0 X Y) amin0 = Inr mins"
      and "bind_err (concatenate0 X Y) amax0 = Inr maxs"
      and "well_shaped X" "well_shaped Y" "0 < L"
      and "utilities_loop (init L K) mins maxs X Y su0 = Inl e"
  shows "e = IndexError"
proof -
  have sum_err: "e' = IndexError"
    if "sum_u (init L K) mins maxs Z k j = Inl e'" "Z = X \<or> Z = Y" "k < K" for Z k j e'
  proof -
    from that(1) have "comprehension (\<lambda>i. u_i (init L K) mins maxs j i Z k) [0..<4] = Inl e'"
      by (cases "comprehension (\<lambda>i. u_i (init L K) mins maxs j i Z k) [0..<4]")
        (simp_all add: sum_u_def init_params)
    from comprehension_Inl [OF this] obtain i where
      "i < 4" "u_i (init L K) mins maxs j i Z k = Inl e'"
      by (auto simp del: upt_rec_numeral)
    then show ?thesis using u_i_error [OF assms(1,2,3,4) that(2) _ that(3) assms(5)] by simp
  qed
  have "\<exists>k\<in>set [0..<K]. \<exists>s. for_each [0..<2000] (\<lambda>j (su :: nat \<times> nat \<times> nat \<rightharpoonup> expr).
         bind_err (sum_u (init L K) mins maxs X k j) (\<lambda>sx.
         bind_err (sum_u (init L K) mins maxs Y k j) (\<lambda>sy.
           Inr (su((0, k, j) \<mapsto> sx, (1, k, j) \<mapsto> sy))))) s = Inl e"
    using assms(6) unfolding utilities_loop_def init_params by (rule for_each_Inl)
  then obtain k s where k: "k < K" and
    inner: "for_each [0..<2000] (\<lambda>j (su :: nat \<times> nat \<times> nat \<rightharpoonup> expr).
         bind_err (sum_u (init L K) mins maxs X k j) (\<lambda>sx.
         bind_err (sum_u (init L K) mins maxs Y k j) (\<lambda>sy.
           Inr (su((0, k, j) \<mapsto> sx, (1, k, j) \<mapsto> sy))))) s = Inl e"
    by auto
  from for_each_Inl [OF inner] obtain j s' where
    body: "bind_err (sum_u (init L K) mins maxs X k j) (\<lambda>sx.
         bind_err (sum_u (init L K) mins maxs Y k j) (\<lambda>sy.
           Inr (s'((0 :: nat, k, j) \<mapsto> sx, (1, k, j) \<mapsto> sy)))) = Inl e"
    by auto
  show ?thesis
  proof (cases "sum_u (init L K) mins maxs X k j")
    case (Inl e')
    then show ?thesis using body sum_err [of X k j e'] k by simp
  next
    case sx: (Inr sx)
    show ?thesis
    proof (cases "sum_u (init L K) mins maxs Y k j")
      case (Inl e')
      then show ?thesis using body sx sum_err [of Y k j e'] k by simp
    next
      case (Inr sy)
      then show ?thesis using body sx by simp
    qed
  qed
qed

lemma fit_IndexError:
  assumes "0 < K" "0 < L" "well_shaped X" "well_shaped Y" "shape1 X = shape1 Y"
      and "0 < shape0 X + shape0 Y"
      and "shape0 X < 2000 \<or> shape1 X < 4 \<or> shape0 Y < 2000 \<or> shape1 Y < 4"
  shows "fit (init L K) X Y = Inl IndexError"
proof -
  note pool = pooled_Inr [OF assms(5,6)]
  let ?mins = "map (\<lambda>i. Min (set (column X i) \<union> set (column Y i))) [0..<shape1 X]"
  let ?maxs = "map (\<lambda>i. Max (set (column X i) \<union> set (column Y i))) [0..<shape1 X]"
  show ?thesis
  proof (cases "utilities_loop (init L K) ?mins ?maxs X Y Map.empty")
    case (Inl e)
    then have "e = IndexError"
      using utilities_loop_error [OF pool assms(3,4,2)] by simp
    then show ?thesis using Inl by (simp add: fit_init_unfold pool)
  next
    case (Inr su)
    then have "fit (init L K) X Y = Inr (fitted L K ?mins ?maxs X Y su)"
      by (simp add: fit_init_unfold pool)
    from fit_needs_shape [OF this assms(1)] assms(7) show ?thesis by simp
  qed
qed

lemma fit_ValueError_columns:
  assumes "shape1 X \<noteq> shape1 Y"
  shows "fit self X Y = Inl ValueError"
  using assms by (simp add: fit_def concatenate0_def)

lemma vars_init: "vars (model (init L K)) \<noteq> []"
proof -
  have "length (vars (model (init L K))) \<ge> 2000"
    by (simp add: init_def instantiate_def Let_def del: upt_Suc)
  then show ?thesis by auto
qed

lemma fit_vars:
  assumes "fit (init L K) X Y = Inr self'"
  shows "vars (model self') = vars (model (init L K))"
  using assms by (auto elim!: fit_init_Inr simp: fitted_params)

lemma foldl_Add_eval: "eval a (foldl Add e es) = eval a e + sum_list (map (eval a) es)"
  by (induction es arbitrary: e) simp_all

lemma eval_quicksum: "eval a (quicksum es) = sum_list (map (eval a) es)"
  by (simp add: quicksum_def foldl_Add_eval)

lemma column_spread: "set (column spread i) = {[0, 0, 0, 0] ! i, [4, 4, 4, 4] ! i}"
  by (auto simp: column_def spread_def)

lemma shape_spread: "shape0 spread = 2000" "shape1 spread = 4"
  by (simp_all add: spread_def)

lemma pooled_spread:
  "bind_err (concatenate0 (full 2000 [3, 3, 3, 3]) spread) amin0 = Inr [0, 0, 0, 0]"
  "bind_err (concatenate0 (full 2000 [3, 3, 3, 3]) spread) amax0 = Inr [4, 4, 4, 4]"
  by (simp_all add: pooled_Inr full_shape column_full column_spread shape_spread)

lemma example_sums:
  assumes "j < 2000" "k < 2"
  shows "sum_u (init 2 2) [0, 0, 0, 0] [4, 4, 4, 4] (full 2000 [4, 4, 4, 4]) k j
           = Inr (quicksum (map (\<lambda>i. Var (U k i 2)) [0..<4]))"
    and "sum_u (init 2 2) [0, 0, 0, 0] [4, 4, 4, 4] (full 2000 [0, 0, 0, 0]) k j
           = Inr (quicksum (map (\<lambda>i. Mul (Add (Var (U k i 0)) (Const 0))
                                          (Sub (Var (U k i 1)) (Var (U k i 0)))) [0..<4]))"
proof -
  have hi: "u_i (init 2 2) [0, 0, 0, 0] [4, 4, 4, 4] j i (full 2000 [4, 4, 4, 4]) k
      = Inr (Var (U k i 2))" if "i < 4" for i
  proof -
    have "[4, 4, 4, 4 :: rat] ! i = 4"
      using that by (auto simp: nth_Cons')
    then show ?thesis
      using u_i_at_max [of j "full 2000 [4, 4, 4, 4]" i "[4, 4, 4, 4]" k 2 2 "[0, 0, 0, 0]"]
        that assms
      by (simp add: full_shape full_entry)
  qed
  have seg: "segment 2 0 4 0 = 0" by (simp add: segment_def)
  have bp: "breakpoint 2 0 4 0 = 0" "breakpoint 2 0 4 1 = 2" by (simp_all add: breakpoint_def)
  have lo: "u_i (init 2 2) [0, 0, 0, 0] [4, 4, 4, 4] j i (full 2000 [0, 0, 0, 0]) k
      = Inr (Mul (Add (Var (U k i 0)) (Const 0)) (Sub (Var (U k i 1)) (Var (U k i 0))))"
    if "i < 4" for i
  proof -
    have nth: "[4, 4, 4, 4 :: rat] ! i = 4" "[0, 0, 0, 0 :: rat] ! i = 0"
      using that by (auto simp: nth_Cons')
    show ?thesis
      using u_i_interior(2) [of j "full 2000 [0, 0, 0, 0]" i "[4, 4, 4, 4]" "[0, 0, 0, 0]" 2 k 2]
        that assms
      by (simp add: full_shape full_entry nth seg bp)
  qed
  show "sum_u (init 2 2) [0, 0, 0, 0] [4, 4, 4, 4] (full 2000 [4, 4, 4, 4]) k j
           = Inr (quicksum (map (\<lambda>i. Var (U k i 2)) [0..<4]))"
    unfolding sum_u_def init_params
    by (subst comprehension_map [where g = "\<lambda>i. Var (U k i 2)"])
      (simp_all add: hi del: upt_rec_numeral)
  show "sum_u (init 2 2) [0, 0, 0, 0] [4, 4, 4, 4] (full 2000 [0, 0, 0, 0]) k j
           = Inr (quicksum (map (\<lambda>i. Mul (Add (Var (U k i 0)) (Const 0))
                                          (Sub (Var (U k i 1)) (Var (U k i 0)))) [0..<4]))"
    unfolding sum_u_def init_params
    by (subst comprehension_map [where g = "\<lambda>i. Mul (Add (Var (U k i 0)) (Const 0))
                                          (Sub (Var (U k i 1)) (Var (U k i 0)))"])
      (simp_all add: lo del: upt_rec_numeral)
qed

lemma example_fit:
  obtains su where
    "fit (init 2 2) (full 2000 [4, 4, 4, 4]) (full 2000 [0, 0, 0, 0])
       = Inr (fitted 2 2 [0, 0, 0, 0] [4, 4, 4, 4]
                (full 2000 [4, 4, 4, 4]) (full 2000 [0, 0, 0, 0]) su)"
    "utilities_loop (init 2 2) [0, 0, 0, 0] [4, 4, 4, 4]
       (full 2000 [4, 4, 4, 4]) (full 2000 [0, 0, 0, 0]) Map.empty = Inr su"
proof -
  let ?X = "full 2000 [4, 4, 4, 4]" and ?Y = "full 2000 [0, 0, 0, 0]"
  have unf: "fit (init 2 2) ?X ?Y
      = bind_err (utilities_loop (init 2 2) [0, 0, 0, 0] [4, 4, 4, 4] ?X ?Y Map.empty)
          (\<lambda>su. Inr (fitted 2 2 [0, 0, 0, 0] [4, 4, 4, 4] ?X ?Y su))"
    by (simp add: fit_init_unfold pooled_full)
  obtain s where s: "fit (init 2 2) ?X ?Y = Inr s"
    using fit_total [of ?X ?Y 2 2] by (auto simp: well_shaped_full full_shape)
  then obtain su where
    "utilities_loop (init 2 2) [0, 0, 0, 0] [4, 4, 4, 4] ?X ?Y Map.empty = Inr su"
    unfolding unf by (auto simp: bind_err_eq_Inr)
  then show ?thesis using that unf by simp
qed

lemma list_all_concat_map:
  "list_all P (concat (map f xs)) \<longleftrightarrow> (\<forall>x\<in>set xs. list_all P (f x))"
  by (induction xs) simp_all

lemma example_feasible:
  "list_all (sat example_assignment)
     (constrs (model (projr (fit (init 2 2) (full 2000 [4, 4, 4, 4]) (full 2000 [0, 0, 0, 0])))))"
proof -
  let ?X = "full 2000 [4, 4, 4, 4]" and ?Y = "full 2000 [0, 0, 0, 0]"
  let ?sx = "\<lambda>k j. projr (sum_u (init 2 2) [0, 0, 0, 0] [4, 4, 4, 4] ?X k j)"
  let ?sy = "\<lambda>k j. projr (sum_u (init 2 2) [0, 0, 0, 0] [4, 4, 4, 4] ?Y k j)"
  obtain su where fit: "fit (init 2 2) ?X ?Y
       = Inr (fitted 2 2 [0, 0, 0, 0] [4, 4, 4, 4] ?X ?Y su)"
    by (rule example_fit)
  have ev: "eval example_assignment (?sx k j) = 2" "eval example_assignment (?sy k j) = 0"
    if "j < 2000" "k < 2" for k j
    by (simp_all add: example_sums [OF that] eval_quicksum example_assignment_def comp_def
        sum_list_triv del: upt_rec_numeral)
  have bigM: "list_all (sat example_assignment) (bigM_block 2 ?sx ?sy)"
    unfolding bigM_block_def list_all_concat_map
    by (simp add: bigM_pair_def bigM_expr_def ev example_assignment_def)
  have mono: "list_all (sat example_assignment) (monotone_block 2 2)"
    unfolding monotone_block_def list_all_concat_map
    by (simp add: list_all_iff example_assignment_def add_divide_distrib)
  have zero: "list_all (sat example_assignment) (zero_block 2)"
    unfolding zero_block_def list_all_concat_map
    by (simp add: list_all_iff example_assignment_def)
  have norm: "list_all (sat example_assignment) (normalization_block 2 2)"
    unfolding normalization_block_def
    by (simp add: list_all_iff eval_quicksum example_assignment_def comp_def sum_list_triv
        del: upt_rec_numeral)
  have cov: "list_all (sat example_assignment) (coverage_block 2)"
    unfolding coverage_block_def
    by (simp add: list_all_iff eval_quicksum example_assignment_def comp_def sum_list_triv
        del: upt_rec_numeral)
  show ?thesis
    unfolding fit by (simp add: constrs_fitted bigM mono zero norm cov)
qed

lemma upt_0_4: "[0..<4] = [0, 1, 2, 3]"
  by code_simp

lemma one_piece_infeasible:
  assumes "0 < K" "list_all (sat a) (zero_block K)" "list_all (sat a) (normalization_block 1 K)"
  shows False
proof -
  have z: "a (U 0 i 0) = 0" if "i < 4" for i
  proof -
    have "EQ (Var (U 0 i 0)) (Const 0) \<in> set (zero_block K)"
      using that assms(1) unfolding zero_block_def by (force simp del: upt_rec_numeral)
    then show ?thesis using assms(2) by (auto simp: list_all_iff)
  qed
  have "EQ (quicksum (map (\<lambda>i. Var (U 0 i (1 - 1))) [0..<4])) (Const 1)
      \<in> set (normalization_block 1 K)"
    using assms(1) unfolding normalization_block_def by (force simp del: upt_rec_numeral)
  then have "eval a (quicksum (map (\<lambda>i. Var (U 0 i 0)) [0..<4])) = 1"
    using assms(3) by (auto simp: list_all_iff)
  moreover have "eval a (quicksum (map (\<lambda>i. Var (U 0 i 0)) [0..<4])) = 0"
    unfolding upt_0_4 by (simp add: eval_quicksum z)
  ultimately show False by simp
qed

lemma bigM_pair_in_block:
  assumes "j < 2000" "k < K"
  shows "set (bigM_pair (sx k j) (sy k j) j k) \<subseteq> set (bigM_block K sx sy)"
  using assms unfolding bigM_block_def by (force simp del: upt_rec_numeral)

lemma fit_constraints_zero_monotone_coverage:
  assumes "fit (init L K) X Y = Inr self'"
  shows "constrs (model (init L K)) = []
    \<and> mip_epsilon self' = 1 / 1000
    \<and> (\<forall>k<K. \<forall>i<4. EQ (Var (U k i 0)) (Const 0) \<in> set (constrs (model self')))
    \<and> (\<forall>k<K. \<forall>i<4. \<forall>l<L.
          GE (Sub (Var (U k i (l + 1))) (Var (U k i l))) (Const (mip_epsilon self'))
            \<in> set (constrs (model self')))
    \<and> (\<forall>j<2000. GE (quicksum (map (\<lambda>k. Var (Binary j k)) [0..<K])) (Const 1)
            \<in> set (constrs (model self')))"
proof -
  from assms obtain mins maxs su where s: "self' = fitted L K mins maxs X Y su"
    by (rule fit_init_Inr)
  have eps: "mip_epsilon self' = 1 / 1000" by (simp add: s fitted_params)
  have zero: "EQ (Var (U k i 0)) (Const 0) \<in> set (zero_block K)" if "k < K" "i < 4" for k i
    using that unfolding zero_block_def by (force simp del: upt_rec_numeral)
  have mono: "GE (Sub (Var (U k i (l + 1))) (Var (U k i l))) (Const (1 / 1000))
      \<in> set (monotone_block L K)" if "k < K" "i < 4" "l < L" for k i l
    using that unfolding monotone_block_def by (force simp del: upt_rec_numeral)
  have cov: "GE (quicksum (map (\<lambda>k. Var (Binary j k)) [0..<K])) (Const 1)
      \<in> set (coverage_block K)" if "j < 2000" for j
    using that unfolding coverage_block_def by (force simp del: upt_rec_numeral)
  have cs: "set (constrs (model self')) =
      set (bigM_block K (\<lambda>k j. projr (sum_u (init L K) mins maxs X k j))
                        (\<lambda>k j. projr (sum_u (init L K) mins maxs Y k j)))
      \<union> set (monotone_block L K) \<union> set (zero_block K)
      \<union> set (normalization_block L K) \<union> set (coverage_block K)"
    by (simp add: s constrs_fitted Un_assoc)
  show ?thesis
    unfolding eps cs using zero mono cov by (simp only: init_model Un_iff) blast
qed

lemma fit_constraints_bigM:
  assumes "fit (init L K) X Y = Inr self'" and "j < 2000" and "k < K"
  shows "\<exists>mins maxs sx sy.
           bind_err (concatenate0 X Y) amin0 = Inr mins
         \<and> bind_err (concatenate0 X Y) amax0 = Inr maxs
         \<and> sum_u (init L K) mins maxs X k j = Inr sx
         \<and> sum_u (init L K) mins maxs Y k j = Inr sy
         \<and> sum_utilite self' (0, k, j) = Some sx
         \<and> sum_utilite self' (1, k, j) = Some sy
         \<and> GE (bigM_expr sx sy j) (Mul (Const (- 5)) (Sub (Const 1) (Var (Binary j k))))
               \<in> set (constrs (model self'))
         \<and> LE (bigM_expr sx sy j) (Sub (Mul (Const 5) (Var (Binary j k))) (Const (1 / 1000)))
               \<in> set (constrs (model self'))
         \<and> (\<forall>a. eval a (bigM_expr sx sy j)
                  = eval a sx - eval a sy - (a (SigmaPlusX j) - a (SigmaMoinsX j))
                    + (a (SigmaPlusY j) - a (SigmaMoinsY j)))"
proof -
  from assms(1) obtain mins maxs su where
    mn: "bind_err (concatenate0 X Y) amin0 = Inr mins" and
    mx: "bind_err (concatenate0 X Y) amax0 = Inr maxs" and
    su: "utilities_loop (init L K) mins maxs X Y Map.empty = Inr su" and
    s: "self' = fitted L K mins maxs X Y su"
    by (rule fit_init_Inr)
  from utilities_loop_post [OF su, of k j] assms(2,3) obtain sx sy where
    sx: "sum_u (init L K) mins maxs X k j = Inr sx" and
    sy: "sum_u (init L K) mins maxs Y k j = Inr sy" and
    k0: "su (0, k, j) = Some sx" and k1: "su (1, k, j) = Some sy"
    by (auto simp: init_params)
  let ?sx = "\<lambda>k j. projr (sum_u (init L K) mins maxs X k j)"
  let ?sy = "\<lambda>k j. projr (sum_u (init L K) mins maxs Y k j)"
  have "set (bigM_pair (?sx k j) (?sy k j) j k) \<subseteq> set (bigM_block K ?sx ?sy)"
    using assms(2,3) by (rule bigM_pair_in_block)
  then have mem: "set (bigM_pair sx sy j k) \<subseteq> set (constrs (model self'))"
    by (auto simp: sx sy s constrs_fitted)
  have ev: "eval a (bigM_expr sx sy j)
        = eval a sx - eval a sy - (a (SigmaPlusX j) - a (SigmaMoinsX j))
          + (a (SigmaPlusY j) - a (SigmaMoinsY j))" for a
    by (simp add: bigM_expr_def)
  show ?thesis
    using mn mx sx sy k0 k1 mem ev
    by (intro exI [of _ mins] exI [of _ maxs] exI [of _ sx] exI [of _ sy])
      (simp add: s fitted_params bigM_pair_def)
qed

lemma predictions_of_fitted:
  assumes "fit (init L K) X0 Y0 = Inr self'"
  shows "predict_utility self' X = Inr (np_zeros (shape0 X) K)
    \<and> (shape0 X = shape0 Y \<longrightarrow>
          predict_preference (predict_utility self') X Y
            = Inr \<lparr>shape0 = shape0 X, shape1 = K,
                    data = replicate (shape0 X) (replicate K 0)\<rparr>)
    \<and> (shape0 X = shape0 Y \<and> 0 < K \<longrightarrow>
          predict_cluster (predict_utility self') X Y = Inr (replicate (shape0 X) 0))"
proof -
  note pu = predict_utility_after_fit [OF assms]
  have pref: "predict_preference (predict_utility self') X Y
            = Inr \<lparr>shape0 = shape0 X, shape1 = K,
                    data = replicate (shape0 X) (replicate K 0)\<rparr>"
    if "shape0 X = shape0 Y"
    using that
    by (simp add: predict_preference_def pu [of X] pu [of Y] np_subtract_zeros)
      (simp add: positive_as_int_def np_zeros_def)
  have clus: "predict_cluster (predict_utility self') X Y = Inr (replicate (shape0 X) 0)"
    if "shape0 X = shape0 Y" "0 < K"
    using that
    by (simp add: predict_cluster_def pu [of X] pu [of Y] np_subtract_zeros)
      (simp add: argmax1_def np_zeros_def argmax_row_replicate)
  show ?thesis using pu pref clus by simp
qed

section \<open>The claims\<close>

text \<open>
  Claim C1. The claim: for a feature value \<open>x\<close> strictly below the pooled maximum, the
  expression that \<^verbatim>\<open>u_i\<close> returns is
  \<open>u[k][i][l] + (x - x_l)/(x_{l+1} - x_l) * (u[k][i][l+1] - u[k][i][l])\<close>. The code does
  not do this: line 231 closes a parenthesis after the quotient, so the value returned
  is the product \<open>(u[k][i][l] + (x - x_l)/(x_{l+1} - x_l)) * (u[k][i][l+1] - u[k][i][l])\<close>.
  Evaluated here with 2 pieces, \<open>X\<close> of 2000 rows \<open>[3,3,3,3]\<close> and \<open>Y\<close> the array
  \<open>spread\<close> (pooled minimum 0, pooled maximum 4), at row 0, feature 0, cluster 0: the
  code returns \<open>(u[0][0][1] + 1/2) * (u[0][0][2] - u[0][0][1])\<close>, the specification's
  formula is \<open>u[0][0][1] + 1/2 * (u[0][0][2] - u[0][0][1])\<close>, and under the example
  assignment (\<open>u[0][0][1] = 1/4\<close>, \<open>u[0][0][2] = 1/2\<close>) their values are 3/16 and 3/8.
\<close>

theorem interior_utility_is_a_product:
  "bind_err (concatenate0 (full 2000 [3, 3, 3, 3]) spread) amin0 = Inr [0, 0, 0, 0]
   \<and> bind_err (concatenate0 (full 2000 [3, 3, 3, 3]) spread) amax0 = Inr [4, 4, 4, 4]
   \<and> u_i (init 2 2) [0, 0, 0, 0] [4, 4, 4, 4] 0 0 (full 2000 [3, 3, 3, 3]) 0
       = Inr (Mul (Add (Var (U 0 0 1)) (Const (1 / 2))) (Sub (Var (U 0 0 2)) (Var (U 0 0 1))))
   \<and> spec_interpolation 2 0 4 3 0 0
       = Add (Var (U 0 0 1)) (Mul (Const (1 / 2)) (Sub (Var (U 0 0 2)) (Var (U 0 0 1))))
   \<and> eval example_assignment
         (Mul (Add (Var (U 0 0 1)) (Const (1 / 2))) (Sub (Var (U 0 0 2)) (Var (U 0 0 1))))
       = 3 / 16
   \<and> eval example_assignment (spec_interpolation 2 0 4 3 0 0) = 3 / 8"
proof -
  have seg: "segment 2 0 4 3 = 1" by (simp add: segment_def floor_eq_iff)
  have bp: "breakpoint 2 0 4 1 = 2" "breakpoint 2 0 4 2 = 4"
    by (simp_all add: breakpoint_def)
  have "u_i (init 2 2) [0, 0, 0, 0] [4, 4, 4, 4] 0 0 (full 2000 [3, 3, 3, 3]) 0
       = Inr (Mul (Add (Var (U 0 0 1)) (Const (1 / 2))) (Sub (Var (U 0 0 2)) (Var (U 0 0 1))))"
    using u_i_interior(2) [of 0 "full 2000 [3, 3, 3, 3]" 0 "[4, 4, 4, 4]" "[0, 0, 0, 0]" 2 0 2]
    by (simp add: full_shape full_entry seg bp)
  moreover have "spec_interpolation 2 0 4 3 0 0
       = Add (Var (U 0 0 1)) (Mul (Const (1 / 2)) (Sub (Var (U 0 0 2)) (Var (U 0 0 1))))"
    by (simp add: spec_interpolation_def seg bp Let_def)
  ultimately show ?thesis
    by (simp add: pooled_spread example_assignment_def)
qed

text \<open>
  Claim C2. The claim: for every cluster \<open>k\<close>, one normalization constraint says that
  the sum over the features of the last breakpoint variable \<open>u[k][i][L]\<close> is 1. The
  code normalizes another variable: line 265 indexes \<^verbatim>\<open>self.criteria[k][i][self.L-1]\<close>,
  the variable before the last. Evaluated here with 2 pieces and 2 clusters: the
  constraint built for cluster 0 sums \<open>u[0][i][1]\<close>, while the last breakpoint variable
  (\<^verbatim>\<open>criteria[0][0][-1]\<close>) is \<open>u[0][0][2]\<close>; the example assignment satisfies every
  constraint that \<^verbatim>\<open>fit\<close> adds on 2000 pairs, yet gives the sum of the \<open>u[0][i][2]\<close>
  the value 2. With one piece the constraints \<open>u[k][i][0] = 0\<close> and
  \<open>sum_i u[k][i][0] = 1\<close> are both added, and no assignment satisfies them.
\<close>

theorem normalization_uses_index_before_last:
  "normalization_constr (init 2 2) 0
     = Inr (EQ (quicksum [Var (U 0 0 1), Var (U 0 1 1), Var (U 0 2 1), Var (U 0 3 1)]) (Const 1))
   \<and> criteria_at (init 2 2) 0 0 (- 1) = Inr (U 0 0 2)
   \<and> list_all (sat example_assignment)
        (constrs (model (projr
           (fit (init 2 2) (full 2000 [4, 4, 4, 4]) (full 2000 [0, 0, 0, 0])))))
   \<and> eval example_assignment
        (quicksum [Var (U 0 0 2), Var (U 0 1 2), Var (U 0 2 2), Var (U 0 3 2)]) = 2
   \<and> \<not> (\<exists>a. list_all (sat a)
        (constrs (model (projr
           (fit (init 1 2) (full 2000 [4, 4, 4, 4]) (full 2000 [0, 0, 0, 0]))))))"
proof -
  have n: "normalization_constr (init 2 2) 0
     = Inr (EQ (quicksum [Var (U 0 0 1), Var (U 0 1 1), Var (U 0 2 1), Var (U 0 3 1)]) (Const 1))"
    using normalization_constr_init [of 0 2 2] unfolding upt_0_4 by simp
  have l: "criteria_at (init 2 2) 0 0 (- 1) = Inr (U 0 0 2)"
    by (rule criteria_at_init_last) simp_all
  have e: "eval example_assignment
        (quicksum [Var (U 0 0 2), Var (U 0 1 2), Var (U 0 2 2), Var (U 0 3 2)]) = 2"
    by (simp add: eval_quicksum example_assignment_def)
  have inf: "\<not> (\<exists>a. list_all (sat a)
        (constrs (model (projr
           (fit (init 1 2) (full 2000 [4, 4, 4, 4]) (full 2000 [0, 0, 0, 0]))))))"
  proof
    assume "\<exists>a. list_all (sat a)
        (constrs (model (projr
           (fit (init 1 2) (full 2000 [4, 4, 4, 4]) (full 2000 [0, 0, 0, 0])))))"
    then obtain a where a: "list_all (sat a)
        (constrs (model (projr
           (fit (init 1 2) (full 2000 [4, 4, 4, 4]) (full 2000 [0, 0, 0, 0])))))" ..
    obtain s where s: "fit (init 1 2) (full 2000 [4, 4, 4, 4]) (full 2000 [0, 0, 0, 0]) = Inr s"
      using fit_total [of "full 2000 [4, 4, 4, 4]" "full 2000 [0, 0, 0, 0]" 1 2]
      by (auto simp: well_shaped_full full_shape)
    from s obtain mins maxs su where
      "s = fitted 1 2 mins maxs (full 2000 [4, 4, 4, 4]) (full 2000 [0, 0, 0, 0]) su"
      by (rule fit_init_Inr)
    then have "list_all (sat a) (zero_block 2)" "list_all (sat a) (normalization_block 1 2)"
      using a unfolding s by (simp_all add: constrs_fitted)
    then show False using one_piece_infeasible [of 2 a] by simp
  qed
  show ?thesis using n l example_feasible e inf by blast
qed

text \<open>
  Claim C3, as amended. When \<^verbatim>\<open>fit\<close> on a freshly constructed object returns
  normally, then for every pair \<open>j\<close> and cluster \<open>k\<close> it has added the two inequalities
  \<open>expr \<ge> -M * (1 - binary[j][k])\<close> and \<open>expr \<le> M * binary[j][k] - epsilon\<close> (\<open>M\<close> is 5,
  epsilon 0.001), where \<open>expr\<close> is \<^verbatim>\<open>sum_utilite[0,k,j] - sigma_plus_x[j] +
  sigma_moins_x[j] - sum_utilite[1,k,j] + sigma_plus_y[j] - sigma_moins_y[j]\<close>, that is
  \<open>utilX - utilY - (sigma_plus_x - sigma_moins_x) + (sigma_plus_y - sigma_moins_y)\<close>:
  the slack pair of X enters with the sign minus and the slack pair of Y with the sign
  plus. \<open>utilX\<close> and \<open>utilY\<close> are the sums over the features of what \<^verbatim>\<open>u_i\<close> returns
  for row \<open>j\<close> of \<open>X\<close> and of \<open>Y\<close>, as stored in \<^verbatim>\<open>sum_utilite\<close>. And \<^verbatim>\<open>fit\<close>
  does return normally whenever \<open>X\<close> and \<open>Y\<close> are well shaped with the same column
  count, at least 2000 rows and 4 columns, and there is at least one piece (in exact
  arithmetic, and up to the solver call).
\<close>

theorem fit_adds_bigM_inequalities:
  "(well_shaped X \<and> well_shaped Y \<and> shape1 X = shape1 Y \<and> 4 \<le> shape1 X
      \<and> 2000 \<le> shape0 X \<and> 2000 \<le> shape0 Y \<and> 0 < L \<longrightarrow> \<not> isl (fit (init L K) X Y))
   \<and> (\<forall>self'. fit (init L K) X Y = Inr self' \<and> j < 2000 \<and> k < K \<longrightarrow>
        (\<exists>mins maxs sx sy.
           bind_err (concatenate0 X Y) amin0 = Inr mins
         \<and> bind_err (concatenate0 X Y) amax0 = Inr maxs
         \<and> sum_u (init L K) mins maxs X k j = Inr sx
         \<and> sum_u (init L K) mins maxs Y k j = Inr sy
         \<and> sum_utilite self' (0, k, j) = Some sx
         \<and> sum_utilite self' (1, k, j) = Some sy
         \<and> GE (bigM_expr sx sy j) (Mul (Const (- 5)) (Sub (Const 1) (Var (Binary j k))))
               \<in> set (constrs (model self'))
         \<and> LE (bigM_expr sx sy j) (Sub (Mul (Const 5) (Var (Binary j k))) (Const (1 / 1000)))
               \<in> set (constrs (model self'))
         \<and> (\<forall>a. eval a (bigM_expr sx sy j)
                  = eval a sx - eval a sy - (a (SigmaPlusX j) - a (SigmaMoinsX j))
                    + (a (SigmaPlusY j) - a (SigmaMoinsY j)))))"
proof -
  have tot: "\<not> isl (fit (init L K) X Y)"
    if "well_shaped X" "well_shaped Y" "shape1 X = shape1 Y" "4 \<le> shape1 X"
       "2000 \<le> shape0 X" "2000 \<le> shape0 Y" "0 < L"
    using fit_total [OF that(1,2,3,7,5,6,4), of K] by auto
  have res: "\<exists>mins maxs sx sy.
           bind_err (concatenate0 X Y) amin0 = Inr mins
         \<and> bind_err (concatenate0 X Y) amax0 = Inr maxs
         \<and> sum_u (init L K) mins maxs X k j = Inr sx
         \<and> sum_u (init L K) mins maxs Y k j = Inr sy
         \<and> sum_utilite self' (0, k, j) = Some sx
         \<and> sum_utilite self' (1, k, j) = Some sy
         \<and> GE (bigM_expr sx sy j) (Mul (Const (- 5)) (Sub (Const 1) (Var (Binary j k))))
               \<in> set (constrs (model self'))
         \<and> LE (bigM_expr sx sy j) (Sub (Mul (Const 5) (Var (Binary j k))) (Const (1 / 1000)))
               \<in> set (constrs (model self'))
         \<and> (\<forall>a. eval a (bigM_expr sx sy j)
                  = eval a sx - eval a sy - (a (SigmaPlusX j) - a (SigmaMoinsX j))
                    + (a (SigmaPlusY j) - a (SigmaMoinsY j)))"
    if "fit (init L K) X Y = Inr self' \<and> j < 2000 \<and> k < K" for self'
    using fit_constraints_bigM [of L K X Y self' j k] that by (elim conjE) simp
  show ?thesis
    by (intro conjI; (use tot res in blast))
qed

text \<open>
  An instance: pair 7 and cluster 1 of a fit on 2000 pairs.
\<close>

theorem fit_adds_bigM_inequalities_witness:
  "GE (bigM_expr
         (the (sum_utilite (projr (fit (init 2 2) (full 2000 [4, 4, 4, 4])
                                     (full 2000 [0, 0, 0, 0]))) (0, 1, 7)))
         (the (sum_utilite (projr (fit (init 2 2) (full 2000 [4, 4, 4, 4])
                                     (full 2000 [0, 0, 0, 0]))) (1, 1, 7))) 7)
      (Mul (Const (- 5)) (Sub (Const 1) (Var (Binary 7 1))))
     \<in> set (constrs (model (projr (fit (init 2 2) (full 2000 [4, 4, 4, 4])
                                      (full 2000 [0, 0, 0, 0])))))"
proof -
  obtain s where s: "fit (init 2 2) (full 2000 [4, 4, 4, 4]) (full 2000 [0, 0, 0, 0]) = Inr s"
    using fit_total [of "full 2000 [4, 4, 4, 4]" "full 2000 [0, 0, 0, 0]" 2 2]
    by (auto simp: well_shaped_full full_shape)
  from fit_adds_bigM_inequalities
    [of "full 2000 [4, 4, 4, 4]" "full 2000 [0, 0, 0, 0]" 2 2 7 1] s
  show ?thesis unfolding s by auto
qed

text \<open>
  The claim as stated (slack pair of X with the sign plus, of Y with the sign minus)
  fails: on 2000 pairs \<open>[4,4,4,4]\<close> preferred to \<open>[0,0,0,0]\<close>, with 2 pieces and 2
  clusters, the example assignment satisfies every constraint that \<^verbatim>\<open>fit\<close> added and
  violates the claimed lower inequality of pair 0 and cluster 0.
\<close>

theorem bigM_slack_signs_counterexample:
  "list_all (sat example_assignment)
     (constrs (model (projr (fit (init 2 2) (full 2000 [4, 4, 4, 4]) (full 2000 [0, 0, 0, 0])))))
   \<and> \<not> sat example_assignment
       (GE (spec_bigM_expr
              (the (sum_utilite (projr (fit (init 2 2) (full 2000 [4, 4, 4, 4])
                                          (full 2000 [0, 0, 0, 0]))) (0, 0, 0)))
              (the (sum_utilite (projr (fit (init 2 2) (full 2000 [4, 4, 4, 4])
                                          (full 2000 [0, 0, 0, 0]))) (1, 0, 0))) 0)
           (Mul (Const (- 5)) (Sub (Const 1) (Var (Binary 0 0)))))"
proof -
  let ?X = "full 2000 [4, 4, 4, 4]" and ?Y = "full 2000 [0, 0, 0, 0]"
  obtain su where fit: "fit (init 2 2) ?X ?Y
       = Inr (fitted 2 2 [0, 0, 0, 0] [4, 4, 4, 4] ?X ?Y su)"
    and su: "utilities_loop (init 2 2) [0, 0, 0, 0] [4, 4, 4, 4] ?X ?Y Map.empty = Inr su"
    by (rule example_fit)
  from utilities_loop_post [OF su, of 0 0] have
    "su (0, 0, 0) = Some (quicksum (map (\<lambda>i. Var (U 0 i 2)) [0..<4]))"
    "su (1, 0, 0) = Some (quicksum (map (\<lambda>i. Mul (Add (Var (U 0 i 0)) (Const 0))
                                          (Sub (Var (U 0 i 1)) (Var (U 0 i 0)))) [0..<4]))"
    by (auto simp: init_params example_sums simp del: upt_rec_numeral)
  then have "\<not> sat example_assignment
       (GE (spec_bigM_expr (the (su (0, 0, 0))) (the (su (1, 0, 0))) 0)
           (Mul (Const (- 5)) (Sub (Const 1) (Var (Binary 0 0)))))"
    by (simp add: spec_bigM_expr_def eval_quicksum example_assignment_def comp_def
        sum_list_triv del: upt_rec_numeral)
  then show ?thesis using example_feasible unfolding fit by (simp add: fitted_params)
qed

text \<open>
  Claim C4, as amended. After a call of \<^verbatim>\<open>fit\<close> that returned normally,
  \<^verbatim>\<open>predict_utility(X)\<close> returns the all-zeros matrix of shape \<open>(n_samples, K)\<close> for
  every \<open>X\<close>; for batches \<open>X\<close>, \<open>Y\<close> of equal length \<^verbatim>\<open>predict_preference\<close> returns
  the all-zeros matrix, and, when the model has at least one cluster,
  \<^verbatim>\<open>predict_cluster\<close> returns index 0 for every sample. And \<^verbatim>\<open>fit\<close> does return
  normally whenever the training arrays are well shaped with the same column count, at
  least 2000 rows and 4 columns, and there is at least one piece (in exact arithmetic,
  and up to the solver call).
\<close>

theorem predictions_after_fit:
  "(well_shaped X0 \<and> well_shaped Y0 \<and> shape1 X0 = shape1 Y0 \<and> 4 \<le> shape1 X0
      \<and> 2000 \<le> shape0 X0 \<and> 2000 \<le> shape0 Y0 \<and> 0 < L \<longrightarrow>
      \<not> isl (fit (init L K) X0 Y0))
   \<and> (\<forall>self'. fit (init L K) X0 Y0 = Inr self' \<longrightarrow>
        predict_utility self' X = Inr (np_zeros (shape0 X) K)
      \<and> (shape0 X = shape0 Y \<longrightarrow>
            predict_preference (predict_utility self') X Y
              = Inr \<lparr>shape0 = shape0 X, shape1 = K,
                      data = replicate (shape0 X) (replicate K 0)\<rparr>)
      \<and> (shape0 X = shape0 Y \<and> 0 < K \<longrightarrow>
            predict_cluster (predict_utility self') X Y = Inr (replicate (shape0 X) 0)))"
proof -
  have tot: "\<not> isl (fit (init L K) X0 Y0)"
    if "well_shaped X0" "well_shaped Y0" "shape1 X0 = shape1 Y0" "4 \<le> shape1 X0"
       "2000 \<le> shape0 X0" "2000 \<le> shape0 Y0" "0 < L"
    using fit_total [OF that(1,2,3,7,5,6,4), of K] by auto
  have res: "predict_utility self' X = Inr (np_zeros (shape0 X) K)
      \<and> (shape0 X = shape0 Y \<longrightarrow>
            predict_preference (predict_utility self') X Y
              = Inr \<lparr>shape0 = shape0 X, shape1 = K,
                      data = replicate (shape0 X) (replicate K 0)\<rparr>)
      \<and> (shape0 X = shape0 Y \<and> 0 < K \<longrightarrow>
            predict_cluster (predict_utility self') X Y = Inr (replicate (shape0 X) 0))"
    if "fit (init L K) X0 Y0 = Inr self'" for self'
    using that by (rule predictions_of_fitted)
  show ?thesis
    by (intro conjI; (use tot res in blast))
qed

text \<open>
  An instance: 2 clusters, batches of 3 samples.
\<close>

theorem predictions_after_fit_witness:
  "predict_cluster
     (predict_utility (projr (fit (init 2 2) (full 2000 [4, 4, 4, 4]) (full 2000 [0, 0, 0, 0]))))
     (full 3 [1, 2, 3, 4]) (full 3 [4, 3, 2, 1]) = Inr [0, 0, 0]"
proof -
  obtain s where s: "fit (init 2 2) (full 2000 [4, 4, 4, 4]) (full 2000 [0, 0, 0, 0]) = Inr s"
    using fit_total [of "full 2000 [4, 4, 4, 4]" "full 2000 [0, 0, 0, 0]" 2 2]
    by (auto simp: well_shaped_full full_shape)
  from predictions_after_fit [of "full 2000 [4, 4, 4, 4]" "full 2000 [0, 0, 0, 0]" 2 2
      "full 3 [1, 2, 3, 4]" "full 3 [4, 3, 2, 1]"] s
  show ?thesis unfolding s by (simp add: full_shape numeral_3_eq_3)
qed

text \<open>
  With \<^verbatim>\<open>n_clusters = 0\<close> the claim as stated fails: \<^verbatim>\<open>fit\<close> returns normally,
  and \<^verbatim>\<open>predict_cluster\<close> raises ValueError (\<^verbatim>\<open>np.argmax\<close> along an axis of
  length 0) instead of returning index 0.
\<close>

theorem predict_cluster_without_cluster_counterexample:
  "\<not> isl (fit (init 1 0) (full 2000 [4, 4, 4, 4]) (full 2000 [0, 0, 0, 0]))
   \<and> predict_cluster
       (predict_utility (projr (fit (init 1 0) (full 2000 [4, 4, 4, 4]) (full 2000 [0, 0, 0, 0]))))
       (full 3 [1, 2, 3, 4]) (full 3 [4, 3, 2, 1]) = Inl ValueError"
proof -
  obtain s where s: "fit (init 1 0) (full 2000 [4, 4, 4, 4]) (full 2000 [0, 0, 0, 0]) = Inr s"
    using fit_total_no_cluster [of "full 2000 [4, 4, 4, 4]" "full 2000 [0, 0, 0, 0]" 1]
    by (auto simp: full_shape)
  note pu = predict_utility_after_fit [OF s]
  show ?thesis
    unfolding s
    by (simp add: predict_cluster_def pu np_subtract_zeros full_shape)
      (simp add: argmax1_def np_zeros_def)
qed

text \<open>
  Claim C5, as amended. When the pooled minimum and maximum of feature \<open>i\<close> are equal,
  \<^verbatim>\<open>fit\<close> raises no error for that feature and divides by nothing: every entry of
  column \<open>i\<close> of \<open>X\<close> and of \<open>Y\<close> equals the maximum, so \<^verbatim>\<open>u_i\<close> takes its first
  branch and returns the last breakpoint variable \<open>u[k][i][L]\<close>, for every row and
  every cluster.
\<close>

theorem degenerate_feature_uses_last_breakpoint:
  assumes "bind_err (concatenate0 X Y) amin0 = Inr mins"
      and "bind_err (concatenate0 X Y) amax0 = Inr maxs"
      and "i < 4" and "i < shape1 X" and "mins ! i = maxs ! i"
  shows "\<forall>Z j k. (Z = X \<or> Z = Y) \<and> well_shaped Z \<and> j < shape0 Z \<and> k < K \<longrightarrow>
            u_i (init L K) mins maxs j i Z k = Inr (Var (U k i L))"
proof -
  have eq: "shape1 X = shape1 Y" using pooled_min_Inr(1) [OF assms(1)] .
  have "u_i (init L K) mins maxs j i Z k = Inr (Var (U k i L))"
    if Z: "Z = X \<or> Z = Y" "well_shaped Z" "j < shape0 Z" "k < K" for Z j k
  proof -
    have iZ: "i < shape1 Z" using Z(1) assms(4) eq by auto
    note b = pooled_bounds [OF assms(1,2) Z(1) iZ]
    have "data Z ! j ! i = maxs ! i"
      using b(3) [OF Z(2,3)] b(4) [OF Z(2,3)] assms(5) by simp
    then show ?thesis using u_i_at_max [of j Z i maxs k K L mins] Z iZ b(2) assms(3) by simp
  qed
  then show ?thesis by blast
qed

text \<open>
  An instance: feature 0 is constant (1 in every row of \<open>X\<close> and \<open>Y\<close>); row 7 of
  \<open>Y\<close>, cluster 1.
\<close>

theorem degenerate_feature_uses_last_breakpoint_witness:
  "bind_err (concatenate0 (full 2000 [1, 4, 4, 4]) (full 2000 [1, 0, 0, 0])) amin0
      = Inr [1, 0, 0, 0]
   \<and> bind_err (concatenate0 (full 2000 [1, 4, 4, 4]) (full 2000 [1, 0, 0, 0])) amax0
      = Inr [1, 4, 4, 4]
   \<and> u_i (init 2 2) [1, 0, 0, 0] [1, 4, 4, 4] 7 0 (full 2000 [1, 0, 0, 0]) 1
      = Inr (Var (U 1 0 2))"
  using degenerate_feature_uses_last_breakpoint [of "full 2000 [1, 4, 4, 4]" "full 2000 [1, 0, 0, 0]"
      "[1, 0, 0, 0]" "[1, 4, 4, 4]" 0 2 2]
  by (simp add: pooled_full full_shape well_shaped_full)

text \<open>
  The claim as stated (a degenerate feature makes \<^verbatim>\<open>fit\<close> raise) fails: with every
  row of \<open>X\<close> and \<open>Y\<close> equal to \<open>[1,1,1,1]\<close> each feature has pooled minimum and maximum
  1, and \<^verbatim>\<open>fit\<close> builds its program without an exception (no value is interior, so
  nothing is divided).
\<close>

theorem degenerate_feature_no_error_counterexample:
  "bind_err (concatenate0 (full 2000 [1, 1, 1, 1]) (full 2000 [1, 1, 1, 1])) amin0
      = Inr [1, 1, 1, 1]
   \<and> bind_err (concatenate0 (full 2000 [1, 1, 1, 1]) (full 2000 [1, 1, 1, 1])) amax0
      = Inr [1, 1, 1, 1]
   \<and> \<not> isl (fit (init 2 2) (full 2000 [1, 1, 1, 1]) (full 2000 [1, 1, 1, 1]))"
  using fit_total [of "full 2000 [1, 1, 1, 1]" "full 2000 [1, 1, 1, 1]" 2 2]
  by (auto simp: pooled_full full_shape well_shaped_full)

text \<open>
  Claim C6, as amended. \<^verbatim>\<open>fit\<close> validates no shape. If \<open>X\<close> and \<open>Y\<close> differ in
  feature count, \<^verbatim>\<open>np.concatenate\<close> raises ValueError in the first statement of
  \<^verbatim>\<open>fit\<close>. A difference in sample count raises no such error: the only statements
  that see the arrays as a whole, the concatenation and the column minima and maxima,
  accept any two sample counts (equal column counts, at least one row in all). The
  optimization variables are constructed by the constructor, before \<^verbatim>\<open>fit\<close> is
  called, and \<^verbatim>\<open>fit\<close> constructs none.
\<close>

theorem fit_checks_no_shapes:
  "(shape1 X \<noteq> shape1 Y \<longrightarrow> fit (init L K) X Y = Inl ValueError)
   \<and> (shape1 X = shape1 Y \<and> 0 < shape0 X + shape0 Y \<longrightarrow>
        \<not> isl (bind_err (concatenate0 X Y) amin0)
        \<and> \<not> isl (bind_err (concatenate0 X Y) amax0))
   \<and> (\<forall>self'. fit (init L K) X Y = Inr self' \<longrightarrow>
        vars (model self') = vars (model (init L K)))
   \<and> vars (model (init L K)) \<noteq> []"
proof -
  have "\<not> isl (bind_err (concatenate0 X Y) amin0) \<and> \<not> isl (bind_err (concatenate0 X Y) amax0)"
    if "shape1 X = shape1 Y" "0 < shape0 X + shape0 Y"
    by (simp add: pooled_Inr [OF that])
  moreover have "shape1 X \<noteq> shape1 Y \<longrightarrow> fit (init L K) X Y = Inl ValueError"
    using fit_ValueError_columns [of X Y "init L K"] by simp
  moreover have "\<forall>self'. fit (init L K) X Y = Inr self' \<longrightarrow>
      vars (model self') = vars (model (init L K))"
    using fit_vars [of L K X Y] by simp
  moreover have "vars (model (init L K)) \<noteq> []" by (rule vars_init)
  ultimately show ?thesis by simp
qed

text \<open>
  Instances: 4 against 3 features; 2000 against 2500 samples at the first statements;
  the variables after a fit on 2000 against 2001 samples.
\<close>

theorem fit_checks_no_shapes_witness:
  "fit (init 2 2) (full 2000 [4, 4, 4, 4]) (full 2000 [0, 0, 0]) = Inl ValueError
   \<and> \<not> isl (bind_err (concatenate0 (full 2000 [4, 4, 4, 4]) (full 2500 [0, 0, 0, 0])) amin0)
   \<and> \<not> isl (bind_err (concatenate0 (full 2000 [4, 4, 4, 4]) (full 2500 [0, 0, 0, 0])) amax0)
   \<and> vars (model (projr (fit (init 2 2) (full 2000 [1, 1, 1, 1]) (full 2001 [1, 1, 1, 1]))))
       = vars (model (init 2 2))"
proof -
  obtain s where s: "fit (init 2 2) (full 2000 [1, 1, 1, 1]) (full 2001 [1, 1, 1, 1]) = Inr s"
    using fit_total [of "full 2000 [1, 1, 1, 1]" "full 2001 [1, 1, 1, 1]" 2 2]
    by (auto simp: full_shape well_shaped_full)
  have "vars (model s) = vars (model (init 2 2))"
    using fit_checks_no_shapes [of "full 2000 [1, 1, 1, 1]" "full 2001 [1, 1, 1, 1]" 2 2] s
    by blast
  then show ?thesis
    using fit_checks_no_shapes [of "full 2000 [4, 4, 4, 4]" "full 2000 [0, 0, 0]" 2 2]
      fit_checks_no_shapes [of "full 2000 [4, 4, 4, 4]" "full 2500 [0, 0, 0, 0]" 2 2]
    unfolding s by (simp add: full_shape)
qed

text \<open>
  The claim as stated fails: with 2000 rows \<open>[1,1,1,1]\<close> in \<open>X\<close> and 2001 such rows in
  \<open>Y\<close>, \<^verbatim>\<open>fit\<close> builds its program without an exception.
\<close>

theorem fit_unequal_sample_counts_counterexample:
  "shape0 (full 2000 [1, 1, 1, 1]) \<noteq> shape0 (full 2001 [1, 1, 1, 1])
   \<and> \<not> isl (fit (init 2 2) (full 2000 [1, 1, 1, 1]) (full 2001 [1, 1, 1, 1]))"
  using fit_total [of "full 2000 [1, 1, 1, 1]" "full 2001 [1, 1, 1, 1]" 2 2]
  by (auto simp: full_shape well_shaped_full)

text \<open>
  Claim C7, as amended. The constructor sets \<open>P = 2000\<close> and \<open>n = 4\<close> whatever the
  data. With at least one cluster, a call of \<^verbatim>\<open>fit\<close> in which \<open>X\<close> or \<open>Y\<close> has fewer
  than 2000 rows or fewer than 4 columns does not return normally; when nothing fails
  before the loops (well-shaped arrays with equal column counts and at least one row in
  all, at least one piece), the exception is the IndexError of the access out of
  bounds.
\<close>

theorem fit_needs_2000_rows_and_4_columns:
  assumes "0 < K"
      and "shape0 X < 2000 \<or> shape1 X < 4 \<or> shape0 Y < 2000 \<or> shape1 Y < 4"
  shows "mip_P (init L K) = 2000 \<and> mip_n (init L K) = 4
    \<and> isl (fit (init L K) X Y)
    \<and> (0 < L \<and> well_shaped X \<and> well_shaped Y \<and> shape1 X = shape1 Y
          \<and> 0 < shape0 X + shape0 Y \<longrightarrow> fit (init L K) X Y = Inl IndexError)"
proof -
  have "isl (fit (init L K) X Y)"
  proof (cases "fit (init L K) X Y")
    case (Inl e)
    then show ?thesis by simp
  next
    case (Inr s)
    from fit_needs_shape [OF this assms(1)] assms(2) show ?thesis by simp
  qed
  then show ?thesis
    using fit_IndexError [OF assms(1) _ _ _ _ _ assms(2), of L] by (simp add: init_params)
qed

text \<open>
  An instance: \<open>X\<close> has 1999 rows.
\<close>

theorem fit_needs_2000_rows_and_4_columns_witness:
  "fit (init 2 2) (full 1999 [4, 4, 4, 4]) (full 2000 [0, 0, 0, 0]) = Inl IndexError"
  using fit_needs_2000_rows_and_4_columns [of 2 "full 1999 [4, 4, 4, 4]" "full 2000 [0, 0, 0, 0]" 2]
  by (simp add: full_shape well_shaped_full)

text \<open>
  With \<^verbatim>\<open>n_clusters = 0\<close> the claim as stated fails: no loop reads \<open>X\<close> or \<open>Y\<close>, and
  \<^verbatim>\<open>fit\<close> returns normally on arrays of one row.
\<close>

theorem fit_without_cluster_counterexample:
  "shape0 (full 1 [4, 4, 4, 4]) < 2000
   \<and> \<not> isl (fit (init 2 0) (full 1 [4, 4, 4, 4]) (full 1 [0, 0, 0, 0]))"
  using fit_total_no_cluster [of "full 1 [4, 4, 4, 4]" "full 1 [0, 0, 0, 0]" 2]
  by (auto simp: full_shape)

text \<open>
  Claim C8. \<^verbatim>\<open>fit\<close>, called on a freshly constructed object (whose model has no
  constraint yet) and returning normally, has added: for every cluster \<open>k\<close> and feature
  \<open>i\<close> the constraint \<open>u[k][i][0] = 0\<close>; for every \<open>l < L\<close> the constraint
  \<open>u[k][i][l+1] - u[k][i][l] \<ge> epsilon\<close> (epsilon is 0.001); and for every pair \<open>j\<close>
  the constraint that the sum over the clusters \<open>k\<close> of \<open>binary[j][k]\<close> is at least 1.
  And \<^verbatim>\<open>fit\<close> does return normally whenever \<open>X\<close> and \<open>Y\<close> are well shaped with the
  same column count, at least 2000 rows and 4 columns, and there is at least one piece
  (in exact arithmetic, and up to the solver call).
\<close>

theorem fit_adds_zero_monotone_coverage:
  "constrs (model (init L K)) = []
   \<and> (well_shaped X \<and> well_shaped Y \<and> shape1 X = shape1 Y \<and> 4 \<le> shape1 X
      \<and> 2000 \<le> shape0 X \<and> 2000 \<le> shape0 Y \<and> 0 < L \<longrightarrow> \<not> isl (fit (init L K) X Y))
   \<and> (\<forall>self'. fit (init L K) X Y = Inr self' \<longrightarrow>
        mip_epsilon self' = 1 / 1000
      \<and> (\<forall>k<K. \<forall>i<4. EQ (Var (U k i 0)) (Const 0) \<in> set (constrs (model self')))
      \<and> (\<forall>k<K. \<forall>i<4. \<forall>l<L.
            GE (Sub (Var (U k i (l + 1))) (Var (U k i l))) (Const (mip_epsilon self'))
              \<in> set (constrs (model self')))
      \<and> (\<forall>j<2000. GE (quicksum (map (\<lambda>k. Var (Binary j k)) [0..<K])) (Const 1)
              \<in> set (constrs (model self'))))"
proof -
  have tot: "\<not> isl (fit (init L K) X Y)"
    if "well_shaped X" "well_shaped Y" "shape1 X = shape1 Y" "4 \<le> shape1 X"
       "2000 \<le> shape0 X" "2000 \<le> shape0 Y" "0 < L"
    using fit_total [OF that(1,2,3,7,5,6,4), of K] by auto
  have res: "mip_epsilon self' = 1 / 1000
      \<and> (\<forall>k<K. \<forall>i<4. EQ (Var (U k i 0)) (Const 0) \<in> set (constrs (model self')))
      \<and> (\<forall>k<K. \<forall>i<4. \<forall>l<L.
            GE (Sub (Var (U k i (l + 1))) (Var (U k i l))) (Const (mip_epsilon self'))
              \<in> set (constrs (model self')))
      \<and> (\<forall>j<2000. GE (quicksum (map (\<lambda>k. Var (Binary j k)) [0..<K])) (Const 1)
              \<in> set (constrs (model self')))"
    if "fit (init L K) X Y = Inr self'" for self'
    using fit_constraints_zero_monotone_coverage [OF that] by (elim conjE) (intro conjI)
  show ?thesis
    by (intro conjI; (use init_model(1) [of L K] tot res in blast))
qed

theorem fit_adds_zero_monotone_coverage_witness:
  "\<not> isl (fit (init 2 2) (full 2000 [4, 4, 4, 4]) (full 2000 [0, 0, 0, 0]))
   \<and> EQ (Var (U 1 3 0)) (Const 0)
       \<in> set (constrs (model (projr (fit (init 2 2) (full 2000 [4, 4, 4, 4]) (full 2000 [0, 0, 0, 0])))))
   \<and> GE (Sub (Var (U 1 3 2)) (Var (U 1 3 1))) (Const (1 / 1000))
       \<in> set (constrs (model (projr (fit (init 2 2) (full 2000 [4, 4, 4, 4]) (full 2000 [0, 0, 0, 0])))))
   \<and> GE (quicksum [Var (Binary 1999 0), Var (Binary 1999 1)]) (Const 1)
       \<in> set (constrs (model (projr (fit (init 2 2) (full 2000 [4, 4, 4, 4]) (full 2000 [0, 0, 0, 0])))))"
proof -
  note t = fit_adds_zero_monotone_coverage
    [of 2 2 "full 2000 [4, 4, 4, 4]" "full 2000 [0, 0, 0, 0]"]
  have r: "\<not> isl (fit (init 2 2) (full 2000 [4, 4, 4, 4]) (full 2000 [0, 0, 0, 0]))"
    using t by (simp add: well_shaped_full full_shape)
  then obtain s where s: "fit (init 2 2) (full 2000 [4, 4, 4, 4]) (full 2000 [0, 0, 0, 0]) = Inr s"
    by (cases "fit (init 2 2) (full 2000 [4, 4, 4, 4]) (full 2000 [0, 0, 0, 0])") auto
  have e: "mip_epsilon s = 1 / 1000"
    and z: "\<forall>k<2. \<forall>i<4. EQ (Var (U k i 0)) (Const 0) \<in> set (constrs (model s))"
    and m: "\<forall>k<2. \<forall>i<4. \<forall>l<2.
            GE (Sub (Var (U k i (l + 1))) (Var (U k i l))) (Const (mip_epsilon s))
              \<in> set (constrs (model s))"
    and c: "\<forall>j<2000. GE (quicksum (map (\<lambda>k. Var (Binary j k)) [0..<2])) (Const 1)
              \<in> set (constrs (model s))"
    using t s by blast+
  have "EQ (Var (U 1 3 0)) (Const 0) \<in> set (constrs (model s))" using z by simp
  moreover have "GE (Sub (Var (U 1 3 (1 + 1))) (Var (U 1 3 1))) (Const (mip_epsilon s))
      \<in> set (constrs (model s))"
    using m by simp
  then have "GE (Sub (Var (U 1 3 2)) (Var (U 1 3 1))) (Const (1 / 1000))
      \<in> set (constrs (model s))"
    unfolding e by (simp only: one_add_one)
  moreover have "[0..<2] = [0, 1]" by code_simp
  then have "GE (quicksum [Var (Binary 1999 0), Var (Binary 1999 1)]) (Const 1)
      \<in> set (constrs (model s))"
    using c [rule_format, of 1999] by simp
  ultimately show ?thesis using r unfolding s by simp
qed

text \<open>
  Claim C9. Let \<open>maxs\<close> be the pooled column maxima of \<open>X\<close> and \<open>Y\<close>, as \<^verbatim>\<open>fit\<close>
  computes them, and let \<open>Z\<close> be \<open>X\<close> or \<open>Y\<close>. When the entry \<open>Z[j,i]\<close> equals
  \<open>maxs[i]\<close>, the expression that \<^verbatim>\<open>u_i\<close> returns for cluster \<open>k\<close> is the variable
  \<open>u[k][i][L]\<close>, the last breakpoint variable, itself: no segment is computed and
  nothing is interpolated.
\<close>

theorem u_i_at_pooled_maximum:
  assumes "bind_err (concatenate0 X Y) amax0 = Inr maxs"
      and "Z = X \<or> Z = Y"
      and "j < shape0 Z" and "i < shape1 Z" and "i < 4" and "k < K"
      and "getitem2 Z j i = getitem maxs (int i)"
  shows "criteria_at (init L K) k i (int L) = Inr (U k i L)
       \<and> u_i (init L K) mins maxs j i Z k = Inr (Var (U k i L))"
proof -
  have len: "i < length maxs"
    using pooled_max_Inr [OF assms(1)] assms(2,4) by auto
  then have "data Z ! j ! i = maxs ! i"
    using assms(3,4,7) by (simp add: getitem2_def getitem_nat)
  then have "u_i (init L K) mins maxs j i Z k = Inr (Var (U k i L))"
    using assms len by (intro u_i_at_max) simp_all
  then show ?thesis using criteria_at_init [of k K i L L] assms(5,6) by simp
qed

theorem u_i_at_pooled_maximum_witness:
  "bind_err (concatenate0 (full 2000 [4, 4, 4, 4]) (full 2000 [0, 0, 0, 0])) amax0
      = Inr [4, 4, 4, 4]
   \<and> u_i (init 2 2) [0, 0, 0, 0] [4, 4, 4, 4] 0 0 (full 2000 [4, 4, 4, 4]) 0
      = Inr (Var (U 0 0 2))"
proof -
  have mx: "bind_err (concatenate0 (full 2000 [4, 4, 4, 4]) (full 2000 [0, 0, 0, 0])) amax0
      = Inr [4, 4, 4, 4]"
    by (simp add: pooled_full)
  have "getitem2 (full 2000 [4, 4, 4, 4]) 0 0 = getitem [4, 4, 4, 4] (int 0)"
    by (simp add: getitem2_def getitem_def full_def)
  from u_i_at_pooled_maximum [OF mx _ _ _ _ _ this, of 0 2 2 "[0, 0, 0, 0]"] mx
  show ?thesis by (simp add: full_shape)
qed

text \<open>
  Claim C10, as amended. Let \<^verbatim>\<open>predict_utility\<close> return, for the equal-length batches
  \<open>X\<close> and \<open>Y\<close>, matrices with one row per sample and the same number of columns
  (clusters), at least one. Then \<^verbatim>\<open>predict_cluster(X, Y)\<close> returns one index per
  sample; it is the index of a cluster whose margin is maximal in that row, and every
  cluster of lower index has a strictly smaller margin (of the clusters with maximal
  margin, the lowest index is returned).
\<close>

theorem predict_cluster_argmax:
  assumes "pu X = Inr X_u" and "pu Y = Inr Y_u"
      and "shape0 X = shape0 Y"
      and "shape0 X_u = shape0 X" and "shape0 Y_u = shape0 Y"
      and "shape1 X_u = shape1 Y_u" and "0 < shape1 X_u"
  shows "\<exists>cs. predict_cluster pu X Y = Inr cs \<and> length cs = shape0 X
          \<and> (\<forall>r<shape0 X. cs ! r < shape1 X_u
                \<and> (\<forall>c<shape1 X_u. margin X_u Y_u r c \<le> margin X_u Y_u r (cs ! r))
                \<and> (\<forall>c<cs ! r. margin X_u Y_u r c < margin X_u Y_u r (cs ! r)))"
proof -
  let ?K = "shape1 X_u" and ?N = "shape0 X"
  let ?row = "\<lambda>r. map (\<lambda>c. margin X_u Y_u r c) [0..<?K]"
  have sub: "np_subtract X_u Y_u
      = Inr \<lparr>shape0 = ?N, shape1 = ?K, data = map ?row [0..<?N]\<rparr>"
    using np_subtract_same_shape [of X_u Y_u] assms by (simp add: margin_def)
  have pc: "predict_cluster pu X Y = Inr (map (\<lambda>r. argmax_row (?row r)) [0..<?N])"
    using assms(1,2,7) by (simp add: predict_cluster_def sub argmax1_def comp_def)
  have row: "argmax_row (?row r) < ?K
       \<and> (\<forall>c<?K. margin X_u Y_u r c \<le> margin X_u Y_u r (argmax_row (?row r)))
       \<and> (\<forall>c<argmax_row (?row r). margin X_u Y_u r c
              < margin X_u Y_u r (argmax_row (?row r)))" for r
  proof -
    have ne: "?row r \<noteq> []" using assms(7) by simp
    note am = argmax_row_correct [OF ne]
    have idx: "?row r ! c = margin X_u Y_u r c" if "c < ?K" for c
      using that by simp
    have *: "argmax_row (?row r) < ?K" using conjunct1 [OF am] by simp
    have "margin X_u Y_u r c \<le> margin X_u Y_u r (argmax_row (?row r))" if "c < ?K" for c
    proof -
      have "?row r ! c \<le> ?row r ! argmax_row (?row r)"
        using conjunct1 [OF conjunct2 [OF am]] that by simp
      then show ?thesis by (simp only: idx [OF that] idx [OF *])
    qed
    moreover have "margin X_u Y_u r c < margin X_u Y_u r (argmax_row (?row r))"
      if "c < argmax_row (?row r)" for c
    proof -
      have "?row r ! c < ?row r ! argmax_row (?row r)"
        using conjunct2 [OF conjunct2 [OF am]] that by blast
      moreover have "c < ?K" using that * by simp
      ultimately show ?thesis by (simp only: idx idx [OF *])
    qed
    ultimately show ?thesis using * by blast
  qed
  show ?thesis using row by (simp add: pc)
qed

text \<open>
  The scenario of the specification: margins 0.3 for cluster 0 and 0.1 for cluster 1
  give index 0.
\<close>

theorem predict_cluster_argmax_witness:
  "predict_cluster utilities_are_features
     \<lparr>shape0 = 1, shape1 = 2, data = [[3 / 10, 1 / 10]]\<rparr>
     \<lparr>shape0 = 1, shape1 = 2, data = [[0, 0]]\<rparr> = Inr [0]"
proof -
  let ?X = "\<lparr>shape0 = 1, shape1 = 2, data = [[3 / 10, 1 / 10 :: rat]]\<rparr>"
  let ?Y = "\<lparr>shape0 = 1, shape1 = 2, data = [[0, 0 :: rat]]\<rparr>"
  from predict_cluster_argmax [of utilities_are_features ?X ?X ?Y ?Y]
  obtain cs where cs: "predict_cluster utilities_are_features ?X ?Y = Inr cs"
    "length cs = 1" "\<forall>c<cs ! 0. margin ?X ?Y 0 c < margin ?X ?Y 0 (cs ! 0)" "cs ! 0 < 2"
    by (auto simp: utilities_are_features_def)
  have "cs ! 0 = 0"
  proof (rule ccontr)
    assume "cs ! 0 \<noteq> 0"
    then have "cs ! 0 = 1" using cs(4) by simp
    then show False using cs(3) [rule_format, of 0] by (simp add: margin_def)
  qed
  then have "cs = [0]" using cs(2) by (cases cs) simp_all
  then show ?thesis using cs(1) by simp
qed

text \<open>
  With no cluster the claim as stated fails: the \<^verbatim>\<open>predict_utility\<close> of
  \<^verbatim>\<open>TwoClustersMIP(1, 0)\<close> returns matrices with no column, and
  \<^verbatim>\<open>predict_cluster\<close> raises ValueError.
\<close>

theorem predict_cluster_empty_axis_counterexample:
  "predict_cluster (predict_utility (init 1 0)) (full 1 [0, 0, 0, 0]) (full 1 [0, 0, 0, 0])
     = Inl ValueError"
  by (simp add: predict_cluster_def predict_utility_def init_params np_zeros_def
      np_subtract_def broadcast_dim_def argmax1_def full_shape)


end
